theory Spec2Isabelle
  imports Main "HOL-Library.Word" "HOL-Library.Signed_Division"
begin

section \<open>Machine integers\<close>

text \<open>
  The sources compute on \<^verbatim>\<open>std::int64_t\<close> and \<^verbatim>\<open>unsigned\<close>. A
  \<^verbatim>\<open>std::int64_t\<close> is a 64-bit word read in two's complement by \<open>sint\<close>; addition and
  subtraction wrap around, which is what the target hardware does where C++ leaves signed
  overflow undefined. An \<^verbatim>\<open>unsigned\<close> is a 32-bit word, converted to 64 bits by
  \<open>ucast\<close> wherever C++ converts it to \<^verbatim>\<open>std::int64_t\<close>.

  C++ division and remainder truncate towards zero: \<open>sdiv\<close> and \<open>smod\<close> on \<open>int\<close>.
  Division by zero has no value in C++; every division of the model whose divisor
  can be zero is guarded where it is used.
\<close>

type_synonym int64 = "64 word"
type_synonym uint32 = "32 word"

definition sdiv64 :: "int64 \<Rightarrow> int64 \<Rightarrow> int64" where
  "sdiv64 a b = word_of_int (sint a sdiv sint b)"

definition smod64 :: "int64 \<Rightarrow> int64 \<Rightarrow> int64" where
  "smod64 a b = word_of_int (sint a smod sint b)"

text \<open>\<^verbatim>\<open>std::min\<close> and \<^verbatim>\<open>std::max\<close> on \<^verbatim>\<open>std::int64_t\<close>\<close>

definition min64 :: "int64 \<Rightarrow> int64 \<Rightarrow> int64" where
  "min64 a b = (if sint b < sint a then b else a)"

definition max64 :: "int64 \<Rightarrow> int64 \<Rightarrow> int64" where
  "max64 a b = (if sint a < sint b then b else a)"

text \<open>
  Division truncating towards zero as the specification words it, for a positive divisor:
  the quotient of the magnitudes, with the sign of the dividend.
\<close>

definition trunc_quot :: "int \<Rightarrow> int \<Rightarrow> int" where
  "trunc_quot k l = (if 0 \<le> k then k div l else - ((- k) div l))"

section \<open>Correction (sosso/Correction.hpp)\<close>

record Correction =
  loss_max :: int64
  drift_max :: int64
  correction :: int64
  average_offset :: int64

text \<open>The default member initialisers of the class.\<close>

definition Correction_init :: Correction where
  "Correction_init = \<lparr>loss_max = 128, drift_max = 64, correction = 0, average_offset = 0\<rparr>"

definition set_drift_limit :: "uint32 \<Rightarrow> Correction \<Rightarrow> Correction" where
  "set_drift_limit d c = c\<lparr>drift_max := ucast d\<rparr>"

definition set_loss_limit :: "uint32 \<Rightarrow> Correction \<Rightarrow> Correction" where
  "set_loss_limit l c = c\<lparr>loss_max := ucast l\<rparr>"

definition clear :: "Correction \<Rightarrow> Correction" where
  "clear c = c\<lparr>correction := 0\<rparr>"

text \<open>
  \<^verbatim>\<open>correct(balance, target)\<close> returns the new correction parameter and the updated
  object. The divisor \<open>drift_max + 1\<close> is positive for every object the class can build:
  the thresholds are private, and hold either their defaults or a value converted from
  \<^verbatim>\<open>unsigned\<close> (see \<open>thresholds_ok\<close>).
\<close>

definition correct :: "Correction \<Rightarrow> int64 \<Rightarrow> int64 \<Rightarrow> int64 \<times> Correction" where
  "correct c balance target =
    (let offset = target - balance;
         c1 = c\<lparr>average_offset := sdiv64 (average_offset c + offset) 2\<rparr>;
         c2 = (if sint (offset - correction c1) < sint (- loss_max c1)
                  \<or> sint (loss_max c1) < sint (offset - correction c1)
               then c1\<lparr>correction := offset\<rparr>
               else c1\<lparr>correction := correction c1
                        + sdiv64 (average_offset c1 - correction c1) (drift_max c1 + 1)\<rparr>)
     in (correction c2, c2))"

text \<open>The thresholds an object can hold: the range of \<^verbatim>\<open>unsigned\<close>.\<close>

definition thresholds_ok :: "Correction \<Rightarrow> bool" where
  "thresholds_ok c \<longleftrightarrow>
     0 \<le> sint (loss_max c) \<and> sint (loss_max c) < 4294967296 \<and>
     0 \<le> sint (drift_max c) \<and> sint (drift_max c) < 4294967296"

text \<open>Calling \<^verbatim>\<open>correct(b, b)\<close> \<open>n\<close> times in a row.\<close>

primrec correct_same :: "nat \<Rightarrow> Correction \<Rightarrow> int64 \<Rightarrow> Correction" where
  "correct_same 0 c b = c"
| "correct_same (Suc n) c b = snd (correct (correct_same n c b) b b)"

text \<open>
  Feeding a sequence of balances with target 0: the correction values returned, call
  after call.
\<close>

fun corrections :: "Correction \<Rightarrow> int64 list \<Rightarrow> int64 list" where
  "corrections c [] = []"
| "corrections c (b # bs) = fst (correct c b 0) # corrections (snd (correct c b 0)) bs"

text \<open>The thresholds as the class initialises them.\<close>

definition defaults :: "Correction \<Rightarrow> bool" where
  "defaults c \<longleftrightarrow> loss_max c = 128 \<and> drift_max c = 64"

text \<open>
  How far a correction is from the band \<open>[-64, 64]\<close>, counted in calls of
  \<^verbatim>\<open>correct(b, b)\<close> still needed once the average is 0: one call above \<open>loss_max\<close>
  (the rigorous branch), one call per frame between 64 and 128.
\<close>

definition excess :: "int \<Rightarrow> int" where
  "excess k = (if 128 < \<bar>k\<bar> then 1 else max 0 (\<bar>k\<bar> - 64))"

text \<open>
  An object as two calls of \<^verbatim>\<open>correct(-128)\<close> leave it: correction 1, average 96.
\<close>

definition stuck :: Correction where
  "stuck = snd (correct (snd (correct Correction_init (- 128) 0)) (- 128) 0)"

text \<open>
  The objects met when balances of magnitude at most \<open>loss_max = 128\<close> are fed to the
  default object: both the average and the correction stay within 128.
\<close>

definition bounded128 :: "Correction \<Rightarrow> bool" where
  "bounded128 c \<longleftrightarrow> defaults c \<and> \<bar>sint (average_offset c)\<bar> \<le> 128 \<and> \<bar>sint (correction c)\<bar> \<le> 128"

section \<open>The devices behind the loop driver\<close>

text \<open>
  \<^verbatim>\<open>TestRun\<close> drives a \<^verbatim>\<open>DoubleBuffer<ReadChannel>\<close>, a
  \<^verbatim>\<open>DoubleBuffer<WriteChannel>\<close> and a \<^verbatim>\<open>FrameClock\<close>, whose sources are in
  other headers. They are parameters of the model: \<open>'w\<close> is the state of the devices, the
  kernel and the time behind the three objects, and each method the driver calls is a
  function on it. The getters that describe an opened device (mode, memory-map capability,
  sample rate, stepping, frame size) are constants of the channel. Results that the driver
  drops (of \<^verbatim>\<open>set_buffer\<close>, \<^verbatim>\<open>memory_unmap\<close>, the buffer of
  \<^verbatim>\<open>take_buffer\<close>) are not returned. The logging calls, and
  \<^verbatim>\<open>frames_to_time\<close> and \<^verbatim>\<open>log_state\<close> that serve them only, are left out.
\<close>

record 'w Channel =
  ch_recording :: bool
  ch_playback :: bool
  ch_can_memory_map :: bool
  ch_sample_rate :: uint32
  ch_stepping :: uint32
  ch_frame_size :: uint32
  ch_memory_map :: "'w \<Rightarrow> bool \<times> 'w"
  ch_memory_unmap :: "'w \<Rightarrow> 'w"
  ch_set_buffer :: "nat \<Rightarrow> int64 \<Rightarrow> 'w \<Rightarrow> 'w"
  ch_add_to_sync_group :: "int \<Rightarrow> 'w \<Rightarrow> bool \<times> 'w"
  ch_start_sync_group :: "int \<Rightarrow> 'w \<Rightarrow> bool \<times> 'w"
  ch_wakeup_time :: "'w \<Rightarrow> int64 \<Rightarrow> int64"
  ch_process :: "int64 \<Rightarrow> 'w \<Rightarrow> bool \<times> 'w"
  ch_finished :: "'w \<Rightarrow> int64 \<Rightarrow> bool"
  ch_balance :: "'w \<Rightarrow> int64"
  ch_take_buffer :: "'w \<Rightarrow> 'w"
  ch_period_end :: "'w \<Rightarrow> int64"
  ch_end_frames :: "'w \<Rightarrow> int64"
  ch_reset_buffers :: "int64 \<Rightarrow> 'w \<Rightarrow> 'w"

record 'w FrameClock =
  init_clock :: "uint32 \<Rightarrow> 'w \<Rightarrow> bool \<times> 'w"
  clock_sleep :: "int64 \<Rightarrow> 'w \<Rightarrow> bool \<times> 'w"
  clock_now :: "'w \<Rightarrow> bool \<times> int64 \<times> 'w"

record 'w Devices =
  inp :: "'w Channel"
  outp :: "'w Channel"
  clk :: "'w FrameClock"

section \<open>TestRun (TestRun.hpp)\<close>

text \<open>The data members of the class; \<open>world\<close> stands for \<^verbatim>\<open>_clock\<close>, \<^verbatim>\<open>_out\<close>, \<^verbatim>\<open>_in\<close>.\<close>

record 'w TestRun =
  world :: 'w
  sync_frames :: int64
  gap :: int64
  out_correction :: Correction
  in_correction :: Correction

definition TestRun_init :: "'w \<Rightarrow> 'w TestRun" where
  "TestRun_init w = \<lparr>world = w, sync_frames = 0, gap = 0,
     out_correction = Correction_init, in_correction = Correction_init\<rparr>"

text \<open>
  What a call does: it returns a \<^verbatim>\<open>bool\<close> and leaves a state, or it divides by zero
  (\<open>Trap\<close>), or the loop is not over when the fuel given to the model is (\<open>Timeout\<close>).
\<close>

datatype 'a outcome = Returns bool 'a | Trap | Timeout

subsection \<open>process\<close>

definition process :: "'w Devices \<Rightarrow> 'w TestRun \<Rightarrow> bool \<times> 'w TestRun" where
  "process d t =
    (let (ok1, w1) =
           (if sint (ch_wakeup_time (inp d) (world t) (sync_frames t)) \<le> sint (sync_frames t)
            then ch_process (inp d) (sync_frames t) (world t) else (True, world t))
     in if \<not> ok1 then (False, t\<lparr>world := w1\<rparr>)
        else
          (let (ok2, w2) =
                 (if sint (ch_wakeup_time (outp d) w1 (sync_frames t)) \<le> sint (sync_frames t)
                  then ch_process (outp d) (sync_frames t) w1 else (True, w1))
           in if \<not> ok2 then (False, t\<lparr>world := w2\<rparr>) else (True, t\<lparr>world := w2\<rparr>)))"

subsection \<open>sleep\<close>

text \<open>The simulated delay of the test harness (lines 183 to 187).\<close>

definition sim_delay :: "int64 \<Rightarrow> int64" where
  "sim_delay sf = (if smod64 (sdiv64 sf 1024) 8 = 7 then 8 * 1024 else 0)"

text \<open>Lines 179 to 192: sleep until the next step.\<close>

definition next_wakeup :: "'w Devices \<Rightarrow> 'w TestRun \<Rightarrow> int64" where
  "next_wakeup d t = min64 (ch_wakeup_time (inp d) (world t) (sync_frames t))
                           (ch_wakeup_time (outp d) (world t) (sync_frames t))"

definition sleep_until :: "'w Devices \<Rightarrow> 'w TestRun \<Rightarrow> bool \<times> 'w TestRun" where
  "sleep_until d t =
    (let wakeup = next_wakeup d t
     in if sint (sync_frames t) < sint wakeup
        then (let (ok, w1) = clock_sleep (clk d) (wakeup + sim_delay (sync_frames t)) (world t)
              in if \<not> ok then (False, t\<lparr>world := w1\<rparr>)
                 else (True, t\<lparr>world := w1, sync_frames := wakeup\<rparr>))
        else (True, t))"

text \<open>
  Lines 194 to 205: read the clock and correct the frame time if the wakeup was late.
  \<^verbatim>\<open>sync_diff % _in.stepping()\<close> divides by zero when the stepping is 0.
\<close>

definition catch_up :: "'w Devices \<Rightarrow> 'w TestRun \<Rightarrow> 'w TestRun outcome" where
  "catch_up d t =
    (let (ok, now, w1) = clock_now (clk d) (world t)
     in if \<not> ok then Returns False (t\<lparr>world := w1\<rparr>)
        else
          (let sync_diff = now - sync_frames t;
               step = (ucast (ch_stepping (inp d)) :: int64)
           in if sint step < sint sync_diff
              then (if step = 0 then Trap
                    else (let rounded = sync_diff - smod64 sync_diff step
                          in Returns True (t\<lparr>world := w1, sync_frames := sync_frames t + rounded\<rparr>)))
              else Returns True (t\<lparr>world := w1\<rparr>)))"

text \<open>Lines 206 to 213: the gap to the period ends, and the reset of the buffers.\<close>

definition gap_check :: "'w Devices \<Rightarrow> 'w TestRun \<Rightarrow> 'w TestRun" where
  "gap_check d t =
    (let g1 = max64 0 (sync_frames t - ch_period_end (inp d) (world t));
         g2 = max64 g1 (sync_frames t - ch_period_end (outp d) (world t))
     in if sint (1024 :: int64) < sint g2
        then (let w1 = ch_reset_buffers (inp d) (ch_end_frames (inp d) (world t) + g2) (world t);
                  w2 = ch_reset_buffers (outp d) (ch_end_frames (outp d) w1 + g2) w1
              in t\<lparr>world := w2, gap := g2\<rparr>)
        else t\<lparr>gap := 0\<rparr>)"

definition sleep :: "'w Devices \<Rightarrow> 'w TestRun \<Rightarrow> 'w TestRun outcome" where
  "sleep d t =
    (let (ok, t1) = sleep_until d t
     in if \<not> ok then Returns False t1
        else (case catch_up d t1 of
                Returns True t2 \<Rightarrow> Returns True (gap_check d t2)
              | r \<Rightarrow> r))"

subsection \<open>read_write\<close>

text \<open>
  \<^verbatim>\<open>memory_map && ch.can_memory_map() && !ch.memory_map()\<close>: whether the mapping
  failed, and the devices afterwards. \<^verbatim>\<open>memory_map()\<close> is called only if the two
  operands before it are true.
\<close>

definition map_failed :: "'w Channel \<Rightarrow> bool \<Rightarrow> 'w \<Rightarrow> bool \<times> 'w" where
  "map_failed ch mm w =
    (if mm \<and> ch_can_memory_map ch
     then (let (ok, w1) = ch_memory_map ch w in (\<not> ok, w1))
     else (False, w))"

text \<open>
  Lines 67 to 80: two buffers of \<open>period * frame_size\<close> bytes are enqueued on each
  channel, ending at \<open>period\<close> and \<open>2 * period\<close>. A buffer is its length here.
\<close>

definition prepare_buffers :: "'w Devices \<Rightarrow> uint32 \<Rightarrow> 'w \<Rightarrow> 'w" where
  "prepare_buffers d period w =
    (let in_size = unat (period * ch_frame_size (inp d));
         in_frames = (ucast period :: int64);
         w1 = ch_set_buffer (inp d) in_size in_frames w;
         in_frames = in_frames + ucast period;
         w2 = ch_set_buffer (inp d) in_size in_frames w1;
         out_size = unat (period * ch_frame_size (outp d));
         out_frames = (ucast period :: int64);
         w3 = ch_set_buffer (outp d) out_size out_frames w2;
         out_frames = out_frames + ucast period;
         w4 = ch_set_buffer (outp d) out_size out_frames w3
     in w4)"

text \<open>Lines 93 to 105: the sync group and the clock; \<open>False\<close> at the first failure.\<close>

definition start_channels :: "'w Devices \<Rightarrow> 'w \<Rightarrow> bool \<times> 'w" where
  "start_channels d w =
    (let (ok1, w1) = ch_add_to_sync_group (inp d) 0 w
     in if \<not> ok1 then (False, w1)
        else (let (ok2, w2) = ch_add_to_sync_group (outp d) 0 w1
              in if \<not> ok2 then (False, w2)
                 else (let (ok3, w3) = ch_start_sync_group (inp d) 0 w2
                       in if \<not> ok3 then (False, w3)
                          else init_clock (clk d) (ch_sample_rate (inp d)) w3)))"

text \<open>The local variables of the loop, with the object.\<close>

record 'w Loop =
  run :: "'w TestRun"
  in_frames :: int64
  out_frames :: int64
  finished :: uint32

text \<open>Lines 112 to 128 and 129 to 145: a finished period on either channel.\<close>

definition in_completed :: "'w Devices \<Rightarrow> uint32 \<Rightarrow> 'w Loop \<Rightarrow> 'w Loop" where
  "in_completed d period l =
    (let t = run l
     in if ch_finished (inp d) (world t) (sync_frames t)
        then (let c = snd (correct (in_correction t) (ch_balance (inp d) (world t)) 0);
                  w1 = ch_take_buffer (inp d) (world t);
                  frames = in_frames l + ucast period;
                  w2 = ch_set_buffer (inp d) (unat (period * ch_frame_size (inp d)))
                         (frames + correction c) w1
              in l\<lparr>run := t\<lparr>world := w2, in_correction := c\<rparr>,
                    in_frames := frames, finished := finished l + 1\<rparr>)
        else l)"

definition out_completed :: "'w Devices \<Rightarrow> uint32 \<Rightarrow> 'w Loop \<Rightarrow> 'w Loop" where
  "out_completed d period l =
    (let t = run l
     in if ch_finished (outp d) (world t) (sync_frames t)
        then (let c = snd (correct (out_correction t) (ch_balance (outp d) (world t)) 0);
                  w1 = ch_take_buffer (outp d) (world t);
                  frames = out_frames l + ucast period;
                  w2 = ch_set_buffer (outp d) (unat (period * ch_frame_size (outp d)))
                         (frames + correction c) w1
              in l\<lparr>run := t\<lparr>world := w2, out_correction := c\<rparr>,
                    out_frames := frames, finished := finished l + 1\<rparr>)
        else l)"

text \<open>Lines 149 to 154: a gap that \<open>sleep\<close> left shifts both frame counters.\<close>

definition gap_shift :: "'w Loop \<Rightarrow> 'w Loop" where
  "gap_shift l =
    (if 0 < sint (gap (run l))
     then l\<lparr>in_frames := in_frames l + gap (run l),
            out_frames := out_frames l + gap (run l),
            run := (run l)\<lparr>gap := 0\<rparr>\<rparr>
     else l)"

text \<open>The body of the loop, lines 109 to 154.\<close>

definition iteration :: "'w Devices \<Rightarrow> uint32 \<Rightarrow> 'w Loop \<Rightarrow> 'w Loop outcome" where
  "iteration d period l =
    (let (ok, t1) = process d (run l)
     in if \<not> ok then Returns False (l\<lparr>run := t1\<rparr>)
        else (let l1 = out_completed d period (in_completed d period (l\<lparr>run := t1\<rparr>))
              in case sleep d (run l1) of
                   Returns ok2 t2 \<Rightarrow>
                     if \<not> ok2 then Returns False (l1\<lparr>run := t2\<rparr>)
                     else Returns True (gap_shift (l1\<lparr>run := t2\<rparr>))
                 | Trap \<Rightarrow> Trap
                 | Timeout \<Rightarrow> Timeout))"

text \<open>
  \<^verbatim>\<open>while (repetitions > finished)\<close>, with fuel: one unit for each pass through the
  body. The state returned with \<open>True\<close> is the one the loop is left with.
\<close>

fun loop :: "nat \<Rightarrow> 'w Devices \<Rightarrow> uint32 \<Rightarrow> uint32 \<Rightarrow> 'w Loop \<Rightarrow> 'w Loop outcome" where
  "loop 0 d period repetitions l =
    (if unat (finished l) < unat repetitions then Timeout else Returns True l)"
| "loop (Suc k) d period repetitions l =
    (if unat (finished l) < unat repetitions
     then (case iteration d period l of
             Returns ok l1 \<Rightarrow>
               if \<not> ok then Returns False l1 else loop k d period repetitions l1
           | Trap \<Rightarrow> Trap
           | Timeout \<Rightarrow> Timeout)
     else Returns True l)"

text \<open>
  Lines 63 to 158: what \<open>read_write\<close> does once the modes are checked and the
  channels mapped.
\<close>

definition run_mapped ::
  "nat \<Rightarrow> 'w Devices \<Rightarrow> uint32 \<Rightarrow> uint32 \<Rightarrow> 'w TestRun \<Rightarrow> 'w TestRun outcome" where
  "run_mapped fuel d period repetitions t =
    (let w3 = prepare_buffers d period (world t)
     in if ch_stepping (outp d) \<noteq> ch_stepping (outp d)
           \<or> ch_sample_rate (inp d) \<noteq> ch_sample_rate (outp d)
        then Returns False (t\<lparr>world := w3\<rparr>)
        else
          (let t1 = t\<lparr>world := w3,
                      in_correction := set_drift_limit 64 (in_correction t),
                      out_correction := set_drift_limit 64 (out_correction t)\<rparr>;
               (ok, w4) = start_channels d w3
           in if \<not> ok then Returns False (t1\<lparr>world := w4\<rparr>)
              else
                (case loop fuel d period repetitions
                        \<lparr>run = t1\<lparr>world := w4\<rparr>,
                         in_frames = ucast period + ucast period,
                         out_frames = ucast period + ucast period,
                         finished = 0\<rparr> of
                   Returns ok2 l \<Rightarrow>
                     if \<not> ok2 then Returns False (run l)
                     else Returns True
                       ((run l)\<lparr>world := ch_memory_unmap (outp d)
                                   (ch_memory_unmap (inp d) (world (run l)))\<rparr>)
                 | Trap \<Rightarrow> Trap
                 | Timeout \<Rightarrow> Timeout)))"

text \<open>Lines 45 to 62, and the rest.\<close>

definition read_write ::
  "nat \<Rightarrow> 'w Devices \<Rightarrow> uint32 \<Rightarrow> uint32 \<Rightarrow> bool \<Rightarrow> 'w TestRun \<Rightarrow> 'w TestRun outcome" where
  "read_write fuel d period repetitions memory_map t =
    (if \<not> ch_recording (inp d) then Returns False t
     else if \<not> ch_playback (outp d) then Returns False t
     else
       (let (failed1, w1) = map_failed (inp d) memory_map (world t)
        in if failed1 then Returns False (t\<lparr>world := w1\<rparr>)
           else
             (let (failed2, w2) = map_failed (outp d) memory_map w1
              in if failed2 then Returns False (t\<lparr>world := w2\<rparr>)
                 else run_mapped fuel d period repetitions (t\<lparr>world := w2\<rparr>))))"

section \<open>A simulated device\<close>

text \<open>
  Modelled from the spec: \<^verbatim>\<open>DoubleBuffer\<close>, the two channels and \<^verbatim>\<open>FrameClock\<close>
  are defined in other headers of the repository. For concrete runs of the driver, here is an
  idealised device after sections 4.1, 4.2 and 6 of the specification: each channel is a
  queue of at most two end frames; a slot is finished when its end frame has been reached;
  the device never drifts (balance 0) and never fails; the clock sleeps exactly until the
  deadline. \<open>taken\<close> counts the calls of \<^verbatim>\<open>take_buffer\<close>, that is the periods
  completed on the channel.
\<close>

record slotq =
  slots :: "int64 list"
  taken :: nat

record sim =
  sim_now :: int64
  sim_inq :: slotq
  sim_outq :: slotq

definition sim_channel ::
  "(sim \<Rightarrow> slotq) \<Rightarrow> ((slotq \<Rightarrow> slotq) \<Rightarrow> sim \<Rightarrow> sim) \<Rightarrow> uint32 \<Rightarrow> uint32 \<Rightarrow> int64
     \<Rightarrow> sim Channel" where
  "sim_channel get upd rate step period =
    \<lparr>ch_recording = True, ch_playback = True, ch_can_memory_map = True,
     ch_sample_rate = rate, ch_stepping = step, ch_frame_size = 4,
     ch_memory_map = (\<lambda>w. (True, w)),
     ch_memory_unmap = (\<lambda>w. w),
     ch_set_buffer = (\<lambda>n e w. if length (slots (get w)) < 2
                                then upd (\<lambda>q. q\<lparr>slots := slots q @ [e]\<rparr>) w else w),
     ch_add_to_sync_group = (\<lambda>i w. (True, w)),
     ch_start_sync_group = (\<lambda>i w. (True, w)),
     ch_wakeup_time = (\<lambda>w sf. case slots (get w) of [] \<Rightarrow> sf | e # es \<Rightarrow> e),
     ch_process = (\<lambda>sf w. (True, w)),
     ch_finished = (\<lambda>w sf. case slots (get w) of [] \<Rightarrow> False | e # es \<Rightarrow> sint e \<le> sint sf),
     ch_balance = (\<lambda>w. 0),
     ch_take_buffer = (\<lambda>w. upd (\<lambda>q. q\<lparr>slots := tl (slots q), taken := Suc (taken q)\<rparr>) w),
     ch_period_end = (\<lambda>w. case slots (get w) of [] \<Rightarrow> 0 | e # es \<Rightarrow> last (e # es)),
     ch_end_frames = (\<lambda>w. case slots (get w) of [] \<Rightarrow> 0 | e # es \<Rightarrow> last (e # es)),
     ch_reset_buffers = (\<lambda>e w. upd (\<lambda>q. q\<lparr>slots := [e, e + period]\<rparr>) w)\<rparr>"

definition sim_clock :: "sim FrameClock" where
  "sim_clock =
    \<lparr>init_clock = (\<lambda>rate w. (True, w\<lparr>sim_now := 0\<rparr>)),
     clock_sleep = (\<lambda>deadline w. (True, w\<lparr>sim_now := max64 (sim_now w) deadline\<rparr>)),
     clock_now = (\<lambda>w. (True, sim_now w, w))\<rparr>"

definition sim_devices :: "uint32 \<Rightarrow> uint32 \<Rightarrow> uint32 \<Rightarrow> uint32 \<Rightarrow> int64 \<Rightarrow> sim Devices" where
  "sim_devices in_rate out_rate in_step out_step period =
    \<lparr>inp = sim_channel sim_inq sim_inq_update in_rate in_step period,
     outp = sim_channel sim_outq sim_outq_update out_rate out_step period,
     clk = sim_clock\<rparr>"

definition sim_start :: sim where
  "sim_start = \<lparr>sim_now = 0, sim_inq = \<lparr>slots = [], taken = 0\<rparr>,
                 sim_outq = \<lparr>slots = [], taken = 0\<rparr>\<rparr>"

text \<open>Devices whose channels do not support memory mapping.\<close>

definition unmappable :: "sim Devices \<Rightarrow> sim Devices" where
  "unmappable d = d\<lparr>inp := (inp d)\<lparr>ch_can_memory_map := False\<rparr>,
                    outp := (outp d)\<lparr>ch_can_memory_map := False\<rparr>\<rparr>"

text \<open>The devices after the two mapping steps of lines 55 to 62.\<close>

definition mapped :: "'w Devices \<Rightarrow> bool \<Rightarrow> 'w \<Rightarrow> 'w" where
  "mapped d mm w = snd (map_failed (outp d) mm (snd (map_failed (inp d) mm w)))"

section \<open>Quantities of sleep, as the specification words them\<close>

text \<open>
  The gap of section 4.4: the maximum of 0, \<open>sync_frames - read.period_end()\<close> and
  \<open>sync_frames - write.period_end()\<close>, on the integers that the machine differences
  denote.
\<close>

definition gap_value :: "'w Devices \<Rightarrow> 'w TestRun \<Rightarrow> int" where
  "gap_value d t = max 0 (max (sint (sync_frames t - ch_period_end (inp d) (world t)))
                              (sint (sync_frames t - ch_period_end (outp d) (world t))))"

text \<open>The value the clock returns in a call of \<open>sleep\<close>, once the waiting is over.\<close>

definition now_read :: "'w Devices \<Rightarrow> 'w TestRun \<Rightarrow> int64" where
  "now_read d t = fst (snd (clock_now (clk d) (world (snd (sleep_until d t)))))"

text \<open>
  The subtraction \<^verbatim>\<open>now - _sync_frames\<close> of line 199 does not fall below the least
  \<^verbatim>\<open>std::int64_t\<close>. It cannot when both are frame counts from the origin of the clock,
  which are not negative.
\<close>

definition no_underflow :: "'w Devices \<Rightarrow> 'w TestRun \<Rightarrow> bool" where
  "no_underflow d t \<longleftrightarrow>
     - 9223372036854775808 \<le> sint (now_read d t) - sint (sync_frames (snd (sleep_until d t)))"

text \<open>The object when the body of the loop calls \<open>sleep\<close>.\<close>

definition before_sleep :: "'w Devices \<Rightarrow> uint32 \<Rightarrow> 'w Loop \<Rightarrow> 'w TestRun" where
  "before_sleep d period l =
     run (out_completed d period (in_completed d period (l\<lparr>run := snd (process d (run l))\<rparr>)))"

section \<open>States of the simulated device\<close>

definition sim48 :: "sim Devices" where
  "sim48 = sim_devices 48000 48000 16 16 1024"

text \<open>The object as the initialisation leaves it, with period 1024.\<close>

definition sim_ready :: "sim TestRun" where
  "sim_ready = TestRun_init \<lparr>sim_now = 0, sim_inq = \<lparr>slots = [1024, 2048], taken = 0\<rparr>,
                               sim_outq = \<lparr>slots = [1024, 2048], taken = 0\<rparr>\<rparr>"

text \<open>The same with the clock at frame 20000: a late wakeup.\<close>

definition sim_late :: "sim TestRun" where
  "sim_late = TestRun_init \<lparr>sim_now = 20000, sim_inq = \<lparr>slots = [1024, 2048], taken = 0\<rparr>,
                              sim_outq = \<lparr>slots = [1024, 2048], taken = 0\<rparr>\<rparr>"

text \<open>The object at frame 7168, the beginning of block 7.\<close>

definition sim_block7 :: "sim TestRun" where
  "sim_block7 = (TestRun_init \<lparr>sim_now = 7168, sim_inq = \<lparr>slots = [8192, 9216], taken = 6\<rparr>,
                              sim_outq = \<lparr>slots = [8192, 9216], taken = 6\<rparr>\<rparr>)\<lparr>sync_frames := 7168\<rparr>"

text \<open>The loop at its entry, and the object after its first and second pass.\<close>

definition sim_loop :: "sim Loop" where
  "sim_loop = \<lparr>run = sim_ready, in_frames = 2048, out_frames = 2048, finished = 0\<rparr>"

definition sim_ready1 :: "sim TestRun" where
  "sim_ready1 = \<lparr>world = \<lparr>sim_now = 1024, sim_inq = \<lparr>slots = [1024, 2048], taken = 0\<rparr>,
                            sim_outq = \<lparr>slots = [1024, 2048], taken = 0\<rparr>\<rparr>,
     sync_frames = 1024, gap = 0,
     out_correction = Correction_init, in_correction = Correction_init\<rparr>"

definition sim_ready2 :: "sim TestRun" where
  "sim_ready2 = \<lparr>world = \<lparr>sim_now = 2048, sim_inq = \<lparr>slots = [2048, 3072], taken = 1\<rparr>,
                            sim_outq = \<lparr>slots = [2048, 3072], taken = 1\<rparr>\<rparr>,
     sync_frames = 2048, gap = 0,
     out_correction = Correction_init, in_correction = Correction_init\<rparr>"

text \<open>The object after \<open>sleep\<close> on \<open>sim_late\<close>: both channels reset to frame 20000.\<close>

definition sim_late1 :: "sim TestRun" where
  "sim_late1 = \<lparr>world = \<lparr>sim_now = 20000, sim_inq = \<lparr>slots = [20000, 21024], taken = 0\<rparr>,
                           sim_outq = \<lparr>slots = [20000, 21024], taken = 0\<rparr>\<rparr>,
     sync_frames = 20000, gap = 17952,
     out_correction = Correction_init, in_correction = Correction_init\<rparr>"

text \<open>The same devices with another stepping of the write channel.\<close>

definition with_out_stepping :: "uint32 \<Rightarrow> 'w Devices \<Rightarrow> 'w Devices" where
  "with_out_stepping s d = d\<lparr>outp := (outp d)\<lparr>ch_stepping := s\<rparr>\<rparr>"

section \<open>The documented stepping, and further states\<close>


text \<open>
  The loop state after lines 109 to 145 of a pass: \<open>process\<close>, then the completion of
  the read channel, then of the write channel.
\<close>

definition completed_pass :: "'w Devices \<Rightarrow> uint32 \<Rightarrow> 'w Loop \<Rightarrow> 'w Loop" where
  "completed_pass d period l =
     out_completed d period (in_completed d period (l\<lparr>run := snd (process d (run l))\<rparr>))"

text \<open>The loop entered on \<open>sim_late\<close>.\<close>

definition sim_loop_late :: "sim Loop" where
  "sim_loop_late = \<lparr>run = sim_late, in_frames = 2048, out_frames = 2048, finished = 0\<rparr>"

section \<open>Arithmetic of 64-bit words\<close>

lemma sint64_bounds:
  "- 9223372036854775808 \<le> sint (x::int64) \<and> sint x < 9223372036854775808"
  using sint_ge [of x] sint_lt [of x] by simp

lemma sint_wi64:
  "- 9223372036854775808 \<le> k \<Longrightarrow> k < 9223372036854775808 \<Longrightarrow>
   sint (word_of_int k :: int64) = k"
  by (simp add: sint_sbintrunc' signed_take_bit_int_eq_self)

lemma sint_add64:
  "- 9223372036854775808 \<le> sint a + sint b \<Longrightarrow> sint a + sint b < 9223372036854775808 \<Longrightarrow>
   sint (a + b :: int64) = sint a + sint b"
  by (simp add: sint_word_add signed_take_bit_int_eq_self)

lemma sint_sub64:
  "- 9223372036854775808 \<le> sint a - sint b \<Longrightarrow> sint a - sint b < 9223372036854775808 \<Longrightarrow>
   sint (a - b :: int64) = sint a - sint b"
  by (simp add: sint_word_diff signed_take_bit_int_eq_self)

lemma uint32_bounds: "0 \<le> uint (x :: uint32) \<and> uint x < 4294967296"
  using uint_bounded [of x] by simp

lemma sint_ucast32: "sint (ucast (x :: uint32) :: int64) = uint x"
proof -
  have "uint x < 2 ^ 32" using uint_bounded [of x] by simp
  then have lt: "uint x < 2 ^ 63" by simp
  have "- 9223372036854775808 \<le> uint x"
    using uint_ge_0 [of x] by linarith
  then have ge: "- (2 ^ 63) \<le> uint x" by simp
  have "uint (ucast x :: int64) = uint x"
    by (simp add: uint_up_ucast is_up)
  moreover have "signed_take_bit 63 (uint x) = uint x"
    using ge lt by (rule signed_take_bit_int_eq_self)
  ultimately show ?thesis
    by (simp add: sint_uint)
qed

lemma sdiv_pos_divisor: "0 < l \<Longrightarrow> (k::int) sdiv l = trunc_quot k l"
  by (simp add: signed_divide_int_def trunc_quot_def sgn_if)

lemma trunc_quot_abs: "0 < l \<Longrightarrow> \<bar>trunc_quot k l\<bar> = \<bar>k\<bar> div l"
proof -
  assume l: "0 < l"
  show ?thesis
  proof (cases "0 \<le> k")
    case True
    then have "0 \<le> k div l" using l by (simp add: pos_imp_zdiv_nonneg_iff)
    then show ?thesis using True by (simp add: trunc_quot_def)
  next
    case False
    then have "0 \<le> (- k) div l" using l by (simp add: pos_imp_zdiv_nonneg_iff)
    then show ?thesis using False by (simp add: trunc_quot_def)
  qed
qed

lemma trunc_quot_small: "0 < l \<Longrightarrow> \<bar>trunc_quot k l\<bar> \<le> \<bar>k\<bar>"
proof -
  assume l: "0 < l"
  have "\<bar>k\<bar> div l \<le> \<bar>k\<bar> div 1"
    using l by (intro zdiv_mono2) simp_all
  then have "\<bar>k\<bar> div l \<le> \<bar>k\<bar>" by simp
  then show ?thesis using l by (simp add: trunc_quot_abs)
qed

lemma sint_sdiv64:
  assumes "0 < sint b"
  shows "sint (sdiv64 a b) = trunc_quot (sint a) (sint b)"
proof -
  have "\<bar>trunc_quot (sint a) (sint b)\<bar> \<le> \<bar>sint a\<bar>"
    using assms by (rule trunc_quot_small)
  then have lo: "- 9223372036854775808 \<le> trunc_quot (sint a) (sint b)"
    using sint64_bounds [of a] by linarith
  have "sint a = - 9223372036854775808 \<or> \<bar>sint a\<bar> < 9223372036854775808"
    using sint64_bounds [of a] by linarith
  then have hi: "trunc_quot (sint a) (sint b) < 9223372036854775808"
  proof
    assume "sint a = - 9223372036854775808"
    then have "trunc_quot (sint a) (sint b) \<le> 0"
      using assms by (simp add: trunc_quot_def pos_imp_zdiv_nonneg_iff)
    then show ?thesis by linarith
  next
    assume "\<bar>sint a\<bar> < 9223372036854775808"
    then show ?thesis
      using \<open>\<bar>trunc_quot (sint a) (sint b)\<bar> \<le> \<bar>sint a\<bar>\<close> by linarith
  qed
  show ?thesis
    using assms lo hi by (simp add: sdiv64_def sdiv_pos_divisor sint_wi64)
qed

lemma sint_neg64:
  "sint a \<noteq> - 9223372036854775808 \<Longrightarrow> sint (- a :: int64) = - sint a"
  using sint64_bounds [of a]
  by (simp add: sint_word_minus signed_take_bit_int_eq_self)

section \<open>The correction step\<close>

lemma correct_average:
  "sint (average_offset (snd (correct c balance target)))
     = trunc_quot (sint (average_offset c + (target - balance))) 2"
  by (simp add: correct_def Let_def sint_sdiv64)

lemma correct_thresholds:
  "loss_max (snd (correct c balance target)) = loss_max c \<and>
   drift_max (snd (correct c balance target)) = drift_max c"
  by (simp add: correct_def Let_def)

lemma correct_returns:
  "fst (correct c balance target) = correction (snd (correct c balance target))"
  by (simp add: correct_def Let_def)

text \<open>
  The two comparisons of the source, against \<open>- loss_max\<close> and against \<open>loss_max\<close>, are
  one comparison of the magnitude.
\<close>

lemma rigorous_iff:
  assumes "0 \<le> sint (loss_max c)" "sint (loss_max c) < 4294967296"
  shows "(sint x < sint (- loss_max c) \<or> sint (loss_max c) < sint x)
     \<longleftrightarrow> sint (loss_max c) < \<bar>sint (x::int64)\<bar>"
proof -
  have "sint (- loss_max c) = - sint (loss_max c)"
    using assms by (intro sint_neg64) linarith
  then show ?thesis by (simp add: abs_if) linarith
qed

lemma sint_drift_plus_one:
  assumes "0 \<le> sint (drift_max c)" "sint (drift_max c) < 4294967296"
  shows "sint (drift_max c + 1) = sint (drift_max c) + 1"
  using assms sint_add64 [of "drift_max c" 1] by simp

lemma correct_rigorous:
  assumes "thresholds_ok c" "sint (loss_max c) < \<bar>sint (target - balance - correction c)\<bar>"
  shows "correction (snd (correct c balance target)) = target - balance"
  using assms rigorous_iff [of c "target - balance - correction c"]
  by (simp add: correct_def Let_def thresholds_ok_def)

lemma correct_gentle:
  assumes "thresholds_ok c" "\<not> sint (loss_max c) < \<bar>sint (target - balance - correction c)\<bar>"
  shows "correction (snd (correct c balance target)) = correction c +
      sdiv64 (average_offset (snd (correct c balance target)) - correction c) (drift_max c + 1)"
  using assms rigorous_iff [of c "target - balance - correction c"]
  by (simp add: correct_def Let_def thresholds_ok_def)

text \<open>
  The range of the thresholds is an invariant of the class: the constructor establishes
  it and every method keeps it.
\<close>

lemma thresholds_ok_invariant:
  "thresholds_ok Correction_init"
  "thresholds_ok c \<Longrightarrow> thresholds_ok (set_drift_limit d c)"
  "thresholds_ok c \<Longrightarrow> thresholds_ok (set_loss_limit l c)"
  "thresholds_ok c \<Longrightarrow> thresholds_ok (clear c)"
  "thresholds_ok c \<Longrightarrow> thresholds_ok (snd (correct c balance target))"
  using uint32_bounds [of d] uint32_bounds [of l] correct_thresholds [of c balance target]
  by (simp_all add: thresholds_ok_def Correction_init_def set_drift_limit_def set_loss_limit_def
      clear_def sint_ucast32)

text \<open>
  C3. For every object whose thresholds are in the range the class can set, and all 64-bit
  inputs, \<open>correct\<close> computes \<open>offset = target - balance\<close>, replaces the average by
  \<open>(average_offset + offset) / 2\<close> truncated towards zero, then sets the correction to
  \<open>offset\<close> if \<open>|offset - correction|\<close> exceeds \<open>loss_max\<close> strictly, and otherwise adds
  \<open>(average_offset' - correction) / (drift_max + 1)\<close>, truncated towards zero, to it; the
  value returned is the new correction. Sums and differences are those of the machine.
\<close>

theorem correct_spec:
  assumes "thresholds_ok c"
  shows "let offset = target - balance;
             c' = snd (correct c balance target)
         in sint (average_offset c') = trunc_quot (sint (average_offset c + offset)) 2
          \<and> (if sint (loss_max c) < \<bar>sint (offset - correction c)\<bar>
             then correction c' = offset
             else sint (correction c' - correction c)
                    = trunc_quot (sint (average_offset c' - correction c)) (sint (drift_max c) + 1))
          \<and> fst (correct c balance target) = correction c'
          \<and> loss_max c' = loss_max c \<and> drift_max c' = drift_max c"
proof -
  have d: "sint (drift_max c + 1) = sint (drift_max c) + 1" "0 < sint (drift_max c + 1)"
    using assms sint_drift_plus_one [of c] by (simp_all add: thresholds_ok_def)
  show ?thesis
    using assms d correct_average [of c balance target] correct_thresholds [of c balance target]
      correct_returns [of c balance target] correct_rigorous [of c target balance]
      correct_gentle [of c target balance]
    by (simp add: Let_def sint_sdiv64)
qed

theorem correct_spec_witness:
  "thresholds_ok Correction_init \<and>
   sint (average_offset (snd (correct Correction_init 200 0))) = - 100 \<and>
   correction (snd (correct Correction_init 200 0)) = - 200 \<and>
   fst (correct Correction_init 200 0) = - 200"
  using correct_spec [of Correction_init 0 200]
  by (simp add: thresholds_ok_def Correction_init_def Let_def trunc_quot_def)

text \<open>
  On inputs and states of magnitude up to \<open>2 ^ 61\<close> no sum or difference of \<open>correct\<close>
  wraps, and the step is the one of the specification on the integers.
\<close>

lemma correct_exact:
  assumes ok: "thresholds_ok c"
    and b: "\<bar>sint balance\<bar> \<le> 2305843009213693952"
    and t: "\<bar>sint target\<bar> \<le> 2305843009213693952"
    and c: "\<bar>sint (correction c)\<bar> \<le> 2305843009213693952"
    and a: "\<bar>sint (average_offset c)\<bar> \<le> 2305843009213693952"
  shows "sint (average_offset (snd (correct c balance target)))
           = trunc_quot (sint (average_offset c) + (sint target - sint balance)) 2"
    and "sint (correction (snd (correct c balance target)))
           = (if sint (loss_max c) < \<bar>sint target - sint balance - sint (correction c)\<bar>
              then sint target - sint balance
              else sint (correction c)
                   + trunc_quot (trunc_quot (sint (average_offset c) + (sint target - sint balance)) 2
                                 - sint (correction c)) (sint (drift_max c) + 1))"
proof -
  let ?c' = "snd (correct c balance target)"
  let ?off = "sint target - sint balance"
  let ?A' = "trunc_quot (sint (average_offset c) + ?off) 2"
  have off: "sint (target - balance) = ?off"
    by (rule sint_sub64) (use b t in linarith)+
  have sum: "sint (average_offset c + (target - balance)) = sint (average_offset c) + ?off"
    unfolding off [symmetric] by (rule sint_add64) (use a b t off in linarith)+
  show A': "sint (average_offset ?c') = ?A'"
    by (simp add: correct_average sum)
  have "\<bar>?A'\<bar> = \<bar>sint (average_offset c) + ?off\<bar> div 2"
    by (simp add: trunc_quot_abs)
  then have A'b: "\<bar>?A'\<bar> \<le> 3458764513820540928"
    using a b t by linarith
  have d: "sint (target - balance - correction c) = ?off - sint (correction c)"
    unfolding off [symmetric] by (rule sint_sub64) (use b t c off in linarith)+
  have D: "sint (drift_max c + 1) = sint (drift_max c) + 1" "0 < sint (drift_max c + 1)"
    using ok sint_drift_plus_one [of c] by (simp_all add: thresholds_ok_def)
  show "sint (correction ?c')
           = (if sint (loss_max c) < \<bar>?off - sint (correction c)\<bar> then ?off
              else sint (correction c) + trunc_quot (?A' - sint (correction c)) (sint (drift_max c) + 1))"
  proof (cases "sint (loss_max c) < \<bar>?off - sint (correction c)\<bar>")
    case True
    then show ?thesis
      using correct_rigorous [OF ok, of target balance] d off by simp
  next
    case False
    let ?q = "sdiv64 (average_offset ?c' - correction c) (drift_max c + 1)"
    have e: "correction ?c' = correction c + ?q"
      using correct_gentle [OF ok, of target balance] d False by simp
    have diff: "sint (average_offset ?c' - correction c) = ?A' - sint (correction c)"
      unfolding A' [symmetric] by (rule sint_sub64) (use A' A'b c in linarith)+
    have q: "sint ?q = trunc_quot (?A' - sint (correction c)) (sint (drift_max c) + 1)"
      using D by (simp add: sint_sdiv64 diff)
    have "\<bar>trunc_quot (?A' - sint (correction c)) (sint (drift_max c) + 1)\<bar>
        \<le> \<bar>?A' - sint (correction c)\<bar>"
      using D by (intro trunc_quot_small) simp
    then have qb: "\<bar>sint ?q\<bar> \<le> 5764607523034234880"
      using q A'b c by linarith
    have "sint (correction c + ?q) = sint (correction c) + sint ?q"
      by (rule sint_add64) (use qb c in linarith)+
    then show ?thesis using False e q by simp
  qed
qed

section \<open>Repeated correction towards the own balance\<close>

lemma defaults_ok: "defaults c \<Longrightarrow> thresholds_ok c"
  by (simp add: defaults_def thresholds_ok_def)

lemma defaults_correct: "defaults c \<Longrightarrow> defaults (snd (correct c balance target))"
  using correct_thresholds [of c balance target] by (simp add: defaults_def)

lemma defaults_correct_same: "defaults c \<Longrightarrow> defaults (correct_same n c b)"
  by (induction n) (simp_all add: defaults_correct)

lemma correct_same_add:
  "correct_same (m + n) c b = correct_same m (correct_same n c b) b"
  by (induction m) simp_all

lemma abs_sint_neg64: "128 < \<bar>sint (- c :: int64)\<bar> \<longleftrightarrow> 128 < \<bar>sint c\<bar>"
proof (cases "sint c = - 9223372036854775808")
  case True
  then have "sint c = sint (- 9223372036854775808 :: int64)" by simp
  then have "c = - 9223372036854775808" by (rule signed_word_eqI)
  then have "- c = c" by simp
  then show ?thesis by (rule arg_cong [where f = "\<lambda>x. 128 < \<bar>sint x\<bar>"])
next
  case False
  then show ?thesis by (simp add: sint_neg64)
qed

text \<open>One call of correct(b, b) on the integers read from the object.\<close>

lemma same_average:
  "sint (average_offset (snd (correct c b b))) = trunc_quot (sint (average_offset c)) 2"
  using correct_average [of c b b] by simp

lemma same_rigorous:
  assumes "defaults c" "128 < \<bar>sint (correction c)\<bar>"
  shows "correction (snd (correct c b b)) = 0"
  using assms correct_rigorous [of c b b] abs_sint_neg64 [of "correction c"]
  by (simp add: defaults_ok) (simp add: defaults_def)

lemma same_gentle:
  assumes "defaults c" "\<bar>sint (correction c)\<bar> \<le> 128"
  shows "sint (correction (snd (correct c b b)))
     = sint (correction c)
       + trunc_quot (trunc_quot (sint (average_offset c)) 2 - sint (correction c)) 65"
proof -
  let ?c' = "snd (correct c b b)"
  let ?a' = "average_offset ?c'"
  have a': "sint ?a' = trunc_quot (sint (average_offset c)) 2" by (rule same_average)
  have "\<bar>sint ?a'\<bar> = \<bar>sint (average_offset c)\<bar> div 2"
    by (simp add: a' trunc_quot_abs)
  then have a'b: "\<bar>sint ?a'\<bar> \<le> 4611686018427387904"
    using sint64_bounds [of "average_offset c"] by linarith
  have diff: "sint (?a' - correction c) = sint ?a' - sint (correction c)"
    using a'b assms(2) by (intro sint_sub64) linarith+
  have q: "sint (sdiv64 (?a' - correction c) 65) = trunc_quot (sint ?a' - sint (correction c)) 65"
    by (simp add: sint_sdiv64 diff)
  have "\<bar>trunc_quot (sint ?a' - sint (correction c)) 65\<bar> \<le> \<bar>sint ?a' - sint (correction c)\<bar>"
    by (rule trunc_quot_small) simp
  then have qb: "\<bar>sint (sdiv64 (?a' - correction c) 65)\<bar> \<le> 4611686018427388032"
    using a'b assms(2) q by linarith
  have "correction ?c' = correction c + sdiv64 (?a' - correction c) (drift_max c + 1)"
    using assms abs_sint_neg64 [of "correction c"]
    by (intro correct_gentle) (simp_all add: defaults_ok, simp add: defaults_def)
  then have "correction ?c' = correction c + sdiv64 (?a' - correction c) 65"
    using assms(1) by (simp add: defaults_def)
  moreover have "sint (correction c + sdiv64 (?a' - correction c) 65)
      = sint (correction c) + sint (sdiv64 (?a' - correction c) 65)"
    using qb assms(2) by (intro sint_add64) linarith+
  ultimately show ?thesis using q a' by simp
qed

lemma average_decay:
  "\<bar>sint (average_offset (correct_same n c b))\<bar> = \<bar>sint (average_offset c)\<bar> div 2 ^ n"
proof (induction n)
  case 0
  show ?case by simp
next
  case (Suc n)
  have "\<bar>sint (average_offset (correct_same (Suc n) c b))\<bar>
      = \<bar>sint (average_offset (correct_same n c b))\<bar> div 2"
    by (simp add: same_average trunc_quot_abs)
  also have "\<dots> = \<bar>sint (average_offset c)\<bar> div 2 ^ n div 2"
    by (simp add: Suc.IH)
  also have "\<dots> = \<bar>sint (average_offset c)\<bar> div (2 ^ n * 2)"
    by (rule zdiv_zmult2_eq [symmetric]) simp
  also have "\<dots> = \<bar>sint (average_offset c)\<bar> div 2 ^ Suc n"
    by (simp add: mult.commute)
  finally show ?case .
qed

lemma average_gone: "64 \<le> n \<Longrightarrow> sint (average_offset (correct_same n c b)) = 0"
proof -
  assume n: "64 \<le> n"
  have "\<bar>sint (average_offset c)\<bar> < 18446744073709551616"
    using sint64_bounds [of "average_offset c"] by linarith
  then have "\<bar>sint (average_offset c)\<bar> < 2 ^ 64" by simp
  also have "(2::int) ^ 64 \<le> 2 ^ n"
    using n by (intro power_increasing) simp_all
  finally have "\<bar>sint (average_offset c)\<bar> div 2 ^ n = 0"
    by (simp add: div_pos_pos_trivial)
  then have "\<bar>sint (average_offset (correct_same n c b))\<bar> = 0"
    by (simp only: average_decay)
  then show ?thesis by simp
qed

text \<open>With the average at 0, the correction only moves towards the band of 64.\<close>

lemma trunc_quot_65:
  "\<bar>k\<bar> \<le> 128 \<Longrightarrow> trunc_quot (- k) 65 = (if 65 \<le> k then - 1 else if k \<le> - 65 then 1 else 0)"
  by (simp add: trunc_quot_def) arith

lemma settle_step:
  assumes "defaults c" "sint (average_offset c) = 0"
  shows "sint (average_offset (snd (correct c b b))) = 0"
    and "excess (sint (correction (snd (correct c b b)))) = max 0 (excess (sint (correction c)) - 1)"
proof -
  show "sint (average_offset (snd (correct c b b))) = 0"
    using assms(2) by (simp add: same_average trunc_quot_def)
  show "excess (sint (correction (snd (correct c b b)))) = max 0 (excess (sint (correction c)) - 1)"
  proof (cases "128 < \<bar>sint (correction c)\<bar>")
    case True
    then show ?thesis using assms(1) by (simp add: same_rigorous excess_def)
  next
    case False
    then have le: "\<bar>sint (correction c)\<bar> \<le> 128" by simp
    have "sint (correction (snd (correct c b b)))
        = sint (correction c) + trunc_quot (- sint (correction c)) 65"
      using same_gentle [OF assms(1) le, of b] assms(2) by (simp add: trunc_quot_def)
    then show ?thesis
      using le by (auto simp add: trunc_quot_65 excess_def)
  qed
qed

lemma settle:
  assumes "defaults c" "sint (average_offset c) = 0"
  shows "sint (average_offset (correct_same n c b)) = 0 \<and>
         excess (sint (correction (correct_same n c b))) = max 0 (excess (sint (correction c)) - int n)"
proof (induction n)
  case 0
  show ?case using assms(2) by (simp add: excess_def)
next
  case (Suc n)
  have d: "defaults (correct_same n c b)" using assms(1) by (rule defaults_correct_same)
  show ?case
    using settle_step [OF d, of b] Suc.IH by simp
qed

lemma excess_le: "excess k \<le> 64"
  by (simp add: excess_def)

lemma excess_zero: "excess k = 0 \<longleftrightarrow> \<bar>k\<bar> \<le> 64"
  by (simp add: excess_def max_def)

lemma settled_fixed:
  assumes "defaults c" "sint (average_offset c) = 0" "\<bar>sint (correction c)\<bar> \<le> 64"
  shows "snd (correct c b b) = c"
proof -
  have a: "average_offset c = 0" using assms(2) by (intro signed_word_eqI) simp
  have n: "sint (- correction c) = - sint (correction c)"
    using assms(3) by (intro sint_neg64) linarith
  have "sint (sdiv64 (- correction c) 65) = trunc_quot (- sint (correction c)) 65"
    by (simp add: sint_sdiv64 n)
  also have "\<dots> = 0"
    using assms(3) by (auto simp add: trunc_quot_65)
  finally have q: "sdiv64 (- correction c) 65 = 0" by (intro signed_word_eqI) simp
  show ?thesis
    using assms a q n by (simp add: correct_def Let_def defaults_def sdiv64_def)
qed

lemma stuck_eq:
  "stuck = \<lparr>loss_max = 128, drift_max = 64, correction = 1, average_offset = 96\<rparr>"
  by (simp add: stuck_def correct_def Correction_init_def Let_def sdiv64_def signed_divide_int_def)

lemma defaults_stuck: "defaults stuck"
  by (simp add: stuck_eq defaults_def)

lemma split_128: "128 \<le> n \<Longrightarrow> \<exists>m. n = m + 64 \<and> 64 \<le> (m::nat)"
  by (rule exI [of _ "n - 64"]) simp

lemma stuck_after_7:
  "correct_same 7 stuck b = \<lparr>loss_max = 128, drift_max = 64, correction = 1, average_offset = 0\<rparr>"
  by (simp add: stuck_eq correct_def Let_def sdiv64_def signed_divide_int_def eval_nat_numeral)

lemma fixed_forever:
  assumes "defaults c" "sint (average_offset c) = 0" "\<bar>sint (correction c)\<bar> \<le> 64"
  shows "correct_same n c b = c"
  by (induction n) (simp_all add: settled_fixed [OF assms])

text \<open>
  From \<open>stuck\<close>, an object that two calls of the interface build, the correction is 1
  after seven calls of \<^verbatim>\<open>correct(b, b)\<close> and remains 1 in every later call.
\<close>

lemma stuck_forever: "correction (correct_same (n + 7) stuck b) = 1"
proof -
  have "correct_same (n + 7) stuck b = correct_same n (correct_same 7 stuck b) b"
    by (rule correct_same_add)
  also have "\<dots> = correct_same 7 stuck b"
    by (rule fixed_forever) (simp_all add: stuck_after_7 defaults_def)
  finally show ?thesis by (simp add: stuck_after_7)
qed

text \<open>
  C4, as stated, fails: with the default thresholds and balance equal to target, the
  object \<open>stuck\<close> still has correction 1 after a million calls.
\<close>

theorem correct_same_not_zero:
  "defaults stuck \<and> sint (correction (correct_same 1000000 stuck 5)) = 1"
proof -
  have "correction (correct_same (999993 + 7) stuck 5) = 1" by (rule stuck_forever)
  then have "correction (correct_same 1000000 stuck 5) = 1" by simp
  then show ?thesis using defaults_stuck by simp
qed

text \<open>
  C4, amended. For every balance \<open>b\<close> and every starting state with the default
  thresholds, 128 calls of \<^verbatim>\<open>correct(b, b)\<close> (at most 64 until the average is 0, then at
  most 64 steps of one frame) bring the correction into the band
  \<open>|correction| \<le> drift_max = 64\<close>, and no later call changes the object.
\<close>

theorem correct_same_settles:
  assumes "defaults c" "128 \<le> n"
  shows "\<bar>sint (correction (correct_same n c b))\<bar> \<le> 64 \<and>
         correct_same (Suc n) c b = correct_same n c b"
proof -
  obtain m where n: "n = m + 64" and m: "64 \<le> m"
    using split_128 [OF assms(2)] by blast
  let ?c64 = "correct_same 64 c b"
  have d: "defaults ?c64" using assms(1) by (rule defaults_correct_same)
  have a: "sint (average_offset ?c64) = 0" by (rule average_gone) simp
  have s: "sint (average_offset (correct_same m ?c64 b)) = 0"
    "excess (sint (correction (correct_same m ?c64 b))) = max 0 (excess (sint (correction ?c64)) - int m)"
    using settle [OF d a, of m b] by simp_all
  have "excess (sint (correction (correct_same m ?c64 b))) = 0"
    using s(2) m excess_le [of "sint (correction ?c64)"] by simp
  then have b: "\<bar>sint (correction (correct_same m ?c64 b))\<bar> \<le> 64"
    by (simp add: excess_zero)
  have e: "correct_same n c b = correct_same m ?c64 b"
    by (simp add: n correct_same_add)
  have "defaults (correct_same m ?c64 b)" using d by (rule defaults_correct_same)
  then have "snd (correct (correct_same m ?c64 b) b b) = correct_same m ?c64 b"
    using s(1) b by (rule settled_fixed)
  then show ?thesis using b e by simp
qed

theorem correct_same_settles_witness:
  "defaults stuck \<and> (128::nat) \<le> 200 \<and> \<bar>sint (correction (correct_same 200 stuck 5))\<bar> \<le> 64"
  using correct_same_settles [of stuck 200 5] defaults_stuck by simp

section \<open>Bounded balances\<close>

lemma feed_average:
  assumes "\<bar>sint (average_offset c)\<bar> \<le> 128" "\<bar>sint b\<bar> \<le> 128"
  shows "sint (average_offset (snd (correct c b 0))) = trunc_quot (sint (average_offset c) - sint b) 2"
proof -
  have n: "sint (- b) = - sint b" using assms(2) by (intro sint_neg64) linarith
  have "sint (average_offset c + - b) = sint (average_offset c) + sint (- b)"
    by (rule sint_add64) (use assms n in linarith)+
  then show ?thesis using n by (simp add: correct_average)
qed

lemma trunc_quot_2_bound: "\<bar>k\<bar> \<le> 256 \<Longrightarrow> \<bar>trunc_quot k 2\<bar> \<le> 128"
  by (simp add: trunc_quot_abs)

lemma trunc_quot_half: "2 * trunc_quot k 2 \<le> k + 1 \<and> k - 1 \<le> 2 * trunc_quot k 2"
  by (simp add: trunc_quot_def) arith

lemma trunc_quot_65_two: "\<bar>k\<bar> \<le> 194 \<Longrightarrow> \<bar>trunc_quot k 65\<bar> \<le> 2"
  by (simp add: trunc_quot_abs)

lemma trunc_quot_between:
  "0 < l \<Longrightarrow> 0 \<le> k \<Longrightarrow> 0 \<le> trunc_quot k l \<and> trunc_quot k l \<le> k"
  "0 < l \<Longrightarrow> k \<le> 0 \<Longrightarrow> k \<le> trunc_quot k l \<and> trunc_quot k l \<le> 0"
  using trunc_quot_small [of l k] trunc_quot_abs [of l k]
  by (auto simp add: trunc_quot_def pos_imp_zdiv_nonneg_iff)

lemma feed_step:
  assumes "bounded128 c" "\<bar>sint b\<bar> \<le> 128"
  shows "bounded128 (snd (correct c b 0))"
    and "128 < \<bar>- sint b - sint (correction c)\<bar> \<Longrightarrow> correction (snd (correct c b 0)) = - b"
    and "\<not> 128 < \<bar>- sint b - sint (correction c)\<bar> \<Longrightarrow>
           \<bar>sint (correction (snd (correct c b 0))) - sint (correction c)\<bar> \<le> 2"
proof -
  let ?c' = "snd (correct c b 0)"
  let ?A = "sint (average_offset c)" and ?C = "sint (correction c)" and ?B = "sint b"
  let ?A' = "sint (average_offset ?c')"
  have d: "defaults c" and A: "\<bar>?A\<bar> \<le> 128" and C: "\<bar>?C\<bar> \<le> 128"
    using assms(1) by (simp_all add: bounded128_def)
  have ok: "thresholds_ok c" and L: "sint (loss_max c) = 128" and D: "drift_max c + 1 = 65"
    using d by (simp_all add: defaults_ok, simp_all add: defaults_def)
  have d': "defaults ?c'" using d by (rule defaults_correct)
  have n: "sint (- b) = - ?B" using assms(2) by (intro sint_neg64) linarith
  have A'eq: "?A' = trunc_quot (?A - ?B) 2" using A assms(2) by (rule feed_average)
  have A': "\<bar>?A'\<bar> \<le> 128"
    unfolding A'eq by (rule trunc_quot_2_bound) (use A assms(2) in linarith)
  have off: "sint (0 - b - correction c) = - ?B - ?C"
  proof -
    have "sint (- b - correction c) = sint (- b) - ?C"
      by (rule sint_sub64) (use n C assms(2) in linarith)+
    then show ?thesis using n by simp
  qed
  have rig: "128 < \<bar>- ?B - ?C\<bar> \<Longrightarrow> correction ?c' = - b"
    using correct_rigorous [OF ok, of 0 b] off L by simp
  have gen: "\<bar>sint (correction ?c') - ?C\<bar> \<le> 2 \<and> \<bar>sint (correction ?c')\<bar> \<le> 128"
    if g: "\<not> 128 < \<bar>- ?B - ?C\<bar>"
  proof -
    have e: "correction ?c' = correction c + sdiv64 (average_offset ?c' - correction c) 65"
      using correct_gentle [OF ok, of 0 b] off L g D by simp
    have diff: "sint (average_offset ?c' - correction c) = ?A' - ?C"
      by (rule sint_sub64) (use A' C in linarith)+
    have q: "sint (sdiv64 (average_offset ?c' - correction c) 65) = trunc_quot (?A' - ?C) 65"
      by (simp add: sint_sdiv64 diff)
    have "\<bar>?A' - ?C\<bar> \<le> 194"
      using trunc_quot_half [of "?A - ?B"] A C g assms(2) unfolding A'eq by linarith
    then have q2: "\<bar>trunc_quot (?A' - ?C) 65\<bar> \<le> 2" by (rule trunc_quot_65_two)
    have sum: "sint (correction ?c') = ?C + trunc_quot (?A' - ?C) 65"
      unfolding e q [symmetric]
      by (rule sint_add64) (use q q2 C in linarith)+
    have "\<bar>?C + trunc_quot (?A' - ?C) 65\<bar> \<le> 128"
    proof (cases "0 \<le> ?A' - ?C")
      case True
      then show ?thesis
        using trunc_quot_between(1) [of 65 "?A' - ?C"] A' C by linarith
    next
      case False
      then show ?thesis
        using trunc_quot_between(2) [of 65 "?A' - ?C"] A' C by linarith
    qed
    then show ?thesis using sum q2 by simp
  qed
  show "128 < \<bar>- ?B - ?C\<bar> \<Longrightarrow> correction ?c' = - b" by (rule rig)
  show "\<not> 128 < \<bar>- ?B - ?C\<bar> \<Longrightarrow> \<bar>sint (correction ?c') - ?C\<bar> \<le> 2"
    using gen by simp
  have "\<bar>sint (correction ?c')\<bar> \<le> 128"
  proof (cases "128 < \<bar>- ?B - ?C\<bar>")
    case True
    then show ?thesis using rig n assms(2) by simp
  next
    case False
    then show ?thesis using gen by simp
  qed
  then show "bounded128 ?c'" using d' A' by (simp add: bounded128_def)
qed

lemma corrections_steps:
  assumes "bounded128 c" "\<forall>b \<in> set bs. \<bar>sint b\<bar> \<le> 128" "i < length bs"
  shows "\<bar>sint ((correction c # corrections c bs) ! Suc i)\<bar> \<le> 128 \<and>
     (if 128 < \<bar>- sint (bs ! i) - sint ((correction c # corrections c bs) ! i)\<bar>
      then (correction c # corrections c bs) ! Suc i = - (bs ! i)
      else \<bar>sint ((correction c # corrections c bs) ! Suc i)
             - sint ((correction c # corrections c bs) ! i)\<bar> \<le> 2)"
  using assms
proof (induction bs arbitrary: c i)
  case Nil
  then show ?case by simp
next
  case (Cons b bs)
  let ?c' = "snd (correct c b 0)"
  have b: "\<bar>sint b\<bar> \<le> 128" using Cons.prems(2) by simp
  have c': "bounded128 ?c'" using Cons.prems(1) b by (rule feed_step(1))
  have r: "fst (correct c b 0) = correction ?c'" by (rule correct_returns)
  show ?case
  proof (cases i)
    case 0
    have "\<bar>sint (correction ?c')\<bar> \<le> 128" using c' by (simp add: bounded128_def)
    then show ?thesis
      using 0 r feed_step(2) [OF Cons.prems(1) b] feed_step(3) [OF Cons.prems(1) b]
      by simp
  next
    case (Suc j)
    have "j < length bs" using Cons.prems(3) Suc by simp
    moreover have "\<forall>x \<in> set bs. \<bar>sint x\<bar> \<le> 128" using Cons.prems(2) by simp
    ultimately show ?thesis
      using Cons.IH [OF c', of j] Suc r by (simp cong: if_cong)
  qed
qed

lemma bounded128_init: "bounded128 Correction_init"
  by (simp add: bounded128_def defaults_def Correction_init_def)

text \<open>
  C9, as stated, fails: the balances \<open>-128, -128, 128\<close> are within \<open>loss_max\<close>, and the
  corrections returned are \<open>0, 1, -128\<close>; the last step is 129 frames, not at most
  \<open>\<lceil>128 / 65\<rceil> = 2\<close>.
\<close>

theorem corrections_step_exceeds:
  "\<bar>sint (- 128 :: int64)\<bar> \<le> 128 \<and> \<bar>sint (128 :: int64)\<bar> \<le> 128 \<and>
   map sint (corrections Correction_init [- 128, - 128, 128]) = [0, 1, - 128] \<and>
   \<not> \<bar>(- 128) - (1::int)\<bar> \<le> 2"
  by (simp add: correct_def Correction_init_def Let_def sdiv64_def signed_divide_int_def)

text \<open>
  C9, amended. For every sequence of balances each bounded in magnitude by \<open>loss_max\<close>,
  fed to \<open>correct\<close> with target 0 from the default state, every correction value is
  bounded by \<open>loss_max = 128\<close> in magnitude; and each call either takes the rigorous branch
  (\<open>|offset - correction| > loss_max\<close>), where the new correction is the offset
  \<open>- balance\<close>, or changes the correction by at most \<open>\<lceil>loss_max / (drift_max + 1)\<rceil> = 2\<close>.
  The list \<open>cs\<close> is the initial correction followed by the values returned.
\<close>

theorem corrections_bounded:
  assumes "\<forall>b \<in> set bs. \<bar>sint b\<bar> \<le> 128" "i < length bs"
  shows "let cs = correction Correction_init # corrections Correction_init bs
         in \<bar>sint (cs ! Suc i)\<bar> \<le> 128 \<and>
            (if 128 < \<bar>- sint (bs ! i) - sint (cs ! i)\<bar>
             then cs ! Suc i = - (bs ! i)
             else \<bar>sint (cs ! Suc i) - sint (cs ! i)\<bar> \<le> 2)"
  unfolding Let_def using bounded128_init assms by (rule corrections_steps)

theorem corrections_bounded_witness:
  "\<bar>sint (- 128 :: int64)\<bar> \<le> 128 \<and> \<bar>sint (128 :: int64)\<bar> \<le> 128 \<and>
   (1::nat) < length [- 128, - 128, 128 :: int64] \<and>
   \<bar>sint ((correction Correction_init # corrections Correction_init [- 128, - 128, 128]) ! 2)\<bar> \<le> 128 \<and>
   \<bar>sint ((correction Correction_init # corrections Correction_init [- 128, - 128, 128]) ! 2)
     - sint ((correction Correction_init # corrections Correction_init [- 128, - 128, 128]) ! 1)\<bar> \<le> 2"
  using corrections_bounded [of "[- 128, - 128, 128]" 1]
  by (simp add: correct_def Correction_init_def Let_def sdiv64_def signed_divide_int_def)

section \<open>Initialisation of read_write\<close>

lemmas sim_simps = sim_devices_def sim_channel_def sim_clock_def sim_start_def TestRun_init_def
  read_write_def run_mapped_def map_failed_def prepare_buffers_def start_channels_def Let_def
  Correction_init_def
  set_drift_limit_def

text \<open>The four calls of \<^verbatim>\<open>set_buffer\<close> in \<open>prepare_buffers\<close>, last call outermost.\<close>

lemma prepare_buffers_calls:
  "prepare_buffers d period w =
     ch_set_buffer (outp d) (unat (period * ch_frame_size (outp d))) (ucast period + ucast period)
       (ch_set_buffer (outp d) (unat (period * ch_frame_size (outp d))) (ucast period)
         (ch_set_buffer (inp d) (unat (period * ch_frame_size (inp d))) (ucast period + ucast period)
           (ch_set_buffer (inp d) (unat (period * ch_frame_size (inp d))) (ucast period) w)))"
  by (simp add: prepare_buffers_def Let_def)

text \<open>
  C1, as stated, fails: with sample rates 44100 and 48000, \<open>read_write\<close> returns false
  when two buffers are already enqueued on each channel (end frames 1024 and 2048).
\<close>

theorem rate_mismatch_after_buffers:
  "ch_sample_rate (inp (sim_devices 44100 48000 16 16 1024))
     \<noteq> ch_sample_rate (outp (sim_devices 44100 48000 16 16 1024)) \<and>
   read_write 0 (sim_devices 44100 48000 16 16 1024) 1024 4 True (TestRun_init sim_start)
     = Returns False
        \<lparr>world = \<lparr>sim_now = 0, sim_inq = \<lparr>slots = [1024, 2048], taken = 0\<rparr>,
                   sim_outq = \<lparr>slots = [1024, 2048], taken = 0\<rparr>\<rparr>,
         sync_frames = 0, gap = 0,
         out_correction = Correction_init, in_correction = Correction_init\<rparr>"
  by (simp add: sim_simps)

text \<open>
  C1, amended. If the read and write channels report different sample rates,
  \<open>read_write\<close> returns false, whatever the fuel, and leaves \<open>sync_frames\<close>, \<open>gap\<close> and
  both corrections as they were; when the mode checks pass and no memory mapping fails, it
  returns after \<open>prepare_buffers\<close>, that is after the four calls of \<^verbatim>\<open>set_buffer\<close>, on
  the devices as the mapping steps left them.
\<close>

theorem rate_mismatch:
  assumes "ch_sample_rate (inp d) \<noteq> ch_sample_rate (outp d)"
  shows "(\<exists>w. read_write fuel d period repetitions mm t = Returns False (t\<lparr>world := w\<rparr>)) \<and>
         (ch_recording (inp d) \<and> ch_playback (outp d) \<and>
          \<not> fst (map_failed (inp d) mm (world t)) \<and>
          \<not> fst (map_failed (outp d) mm (snd (map_failed (inp d) mm (world t))))
          \<longrightarrow> read_write fuel d period repetitions mm t
                = Returns False (t\<lparr>world := prepare_buffers d period (mapped d mm (world t))\<rparr>))"
  using assms
  by (auto simp add: read_write_def run_mapped_def mapped_def Let_def split: prod.splits
      intro: exI [of _ "world t"])

theorem rate_mismatch_witness:
  "ch_sample_rate (inp (sim_devices 44100 48000 16 16 1024))
     \<noteq> ch_sample_rate (outp (sim_devices 44100 48000 16 16 1024)) \<and>
   read_write 7 (sim_devices 44100 48000 16 16 1024) 1024 4 False (TestRun_init sim_start)
     = Returns False ((TestRun_init sim_start)\<lparr>world :=
         prepare_buffers (sim_devices 44100 48000 16 16 1024) 1024
           (mapped (sim_devices 44100 48000 16 16 1024) False sim_start)\<rparr>)"
  using rate_mismatch [of "sim_devices 44100 48000 16 16 1024" 7 1024 4 False "TestRun_init sim_start"]
  by (simp add: sim_devices_def sim_channel_def map_failed_def TestRun_init_def)

text \<open>
  The comparison of the steppings on line 82 is of the write channel with itself and
  never fails. On a simulated device outside the documented rule, with steppings 16 and
  32 at 48 kHz on both channels, \<open>read_write\<close> returns true.
\<close>

lemma self_comparison_accepts:
  "ch_stepping (inp (sim_devices 48000 48000 16 32 1024))
     \<noteq> ch_stepping (outp (sim_devices 48000 48000 16 32 1024)) \<and>
   read_write 0 (sim_devices 48000 48000 16 32 1024) 1024 0 True (TestRun_init sim_start)
     = Returns True
        \<lparr>world = \<lparr>sim_now = 0, sim_inq = \<lparr>slots = [1024, 2048], taken = 0\<rparr>,
                   sim_outq = \<lparr>slots = [1024, 2048], taken = 0\<rparr>\<rparr>,
         sync_frames = 0, gap = 0,
         out_correction = Correction_init, in_correction = Correction_init\<rparr>"
  by (simp add: sim_simps)






lemma map_failed_unsupported:
  "\<not> ch_can_memory_map ch \<Longrightarrow> map_failed ch mm w = (False, w)"
  by (simp add: map_failed_def)

lemma map_failed_iff:
  "fst (map_failed ch mm w) \<longleftrightarrow> mm \<and> ch_can_memory_map ch \<and> \<not> fst (ch_memory_map ch w)"
  by (auto simp add: map_failed_def Let_def split: prod.splits)

text \<open>
  C10. With \<open>memory_map = true\<close>, a channel that does not advertise memory mapping is
  left as it is and the step does not fail; a mapping step fails exactly when mapping is
  requested, the channel advertises it and \<^verbatim>\<open>memory_map()\<close> returns false. Once the
  modes are right, \<open>read_write\<close> returns false at a mapping step that fails and goes on
  with the buffers otherwise; when neither channel advertises memory mapping, it runs as
  with \<open>memory_map = false\<close>.
\<close>

theorem memory_map_optional:
  "(\<not> ch_can_memory_map ch \<longrightarrow> map_failed ch True w = (False, w)) \<and>
   (fst (map_failed ch mm w) \<longleftrightarrow> mm \<and> ch_can_memory_map ch \<and> \<not> fst (ch_memory_map ch w)) \<and>
   (ch_recording (inp d) \<and> ch_playback (outp d) \<longrightarrow>
      read_write fuel d period repetitions mm t =
        (if fst (map_failed (inp d) mm (world t))
         then Returns False (t\<lparr>world := snd (map_failed (inp d) mm (world t))\<rparr>)
         else if fst (map_failed (outp d) mm (snd (map_failed (inp d) mm (world t))))
         then Returns False (t\<lparr>world := mapped d mm (world t)\<rparr>)
         else run_mapped fuel d period repetitions (t\<lparr>world := mapped d mm (world t)\<rparr>))) \<and>
   (\<not> ch_can_memory_map (inp d) \<and> \<not> ch_can_memory_map (outp d) \<longrightarrow>
      read_write fuel d period repetitions True t = read_write fuel d period repetitions False t)"
proof (intro conjI impI)
  assume "\<not> ch_can_memory_map ch"
  then show "map_failed ch True w = (False, w)" by (rule map_failed_unsupported)
next
  show "fst (map_failed ch mm w) \<longleftrightarrow> mm \<and> ch_can_memory_map ch \<and> \<not> fst (ch_memory_map ch w)"
    by (rule map_failed_iff)
next
  assume "ch_recording (inp d) \<and> ch_playback (outp d)"
  then show "read_write fuel d period repetitions mm t =
        (if fst (map_failed (inp d) mm (world t))
         then Returns False (t\<lparr>world := snd (map_failed (inp d) mm (world t))\<rparr>)
         else if fst (map_failed (outp d) mm (snd (map_failed (inp d) mm (world t))))
         then Returns False (t\<lparr>world := mapped d mm (world t)\<rparr>)
         else run_mapped fuel d period repetitions (t\<lparr>world := mapped d mm (world t)\<rparr>))"
    by (simp add: read_write_def mapped_def Let_def split: prod.splits)
next
  assume "\<not> ch_can_memory_map (inp d) \<and> \<not> ch_can_memory_map (outp d)"
  then show "read_write fuel d period repetitions True t = read_write fuel d period repetitions False t"
    by (simp add: map_failed_unsupported read_write_def)
qed

theorem memory_map_optional_witness:
  "\<not> ch_can_memory_map (inp (unmappable (sim_devices 48000 48000 16 16 1024))) \<and>
   \<not> ch_can_memory_map (outp (unmappable (sim_devices 48000 48000 16 16 1024))) \<and>
   read_write 0 (unmappable (sim_devices 48000 48000 16 16 1024)) 1024 0 True (TestRun_init sim_start)
     = read_write 0 (unmappable (sim_devices 48000 48000 16 16 1024)) 1024 0 False (TestRun_init sim_start) \<and>
   read_write 0 (unmappable (sim_devices 48000 48000 16 16 1024)) 1024 0 True (TestRun_init sim_start)
     = Returns True
        \<lparr>world = \<lparr>sim_now = 0, sim_inq = \<lparr>slots = [1024, 2048], taken = 0\<rparr>,
                   sim_outq = \<lparr>slots = [1024, 2048], taken = 0\<rparr>\<rparr>,
         sync_frames = 0, gap = 0,
         out_correction = Correction_init, in_correction = Correction_init\<rparr>"
  using memory_map_optional [of "inp (unmappable (sim_devices 48000 48000 16 16 1024))" sim_start True
      "unmappable (sim_devices 48000 48000 16 16 1024)" 0 1024 0 "TestRun_init sim_start"]
  by (simp add: sim_simps unmappable_def)

section \<open>Runs on the simulated device\<close>

lemmas run_simps = sim48_def sim_devices_def sim_channel_def sim_clock_def TestRun_init_def
  sim_ready_def sim_late_def sim_block7_def sim_loop_def sim_ready1_def sim_ready2_def sim_late1_def
  sleep_def sleep_until_def next_wakeup_def catch_up_def gap_check_def sim_delay_def
  min64_def max64_def sdiv64_def smod64_def signed_divide_int_def signed_modulo_int_def
  process_def in_completed_def out_completed_def gap_shift_def iteration_def
  correct_def Correction_init_def Let_def

lemma sleep_ready: "sleep sim48 sim_ready = Returns True sim_ready1"
  by (simp add: run_simps)

lemma sleep_late: "sleep sim48 sim_late = Returns True sim_late1"
  by (simp add: run_simps)

lemma sleep_until_late: "sleep_until sim48 sim_late = (True, sim_late\<lparr>sync_frames := 1024\<rparr>)"
  by (simp add: run_simps)

lemma no_underflow_late: "no_underflow sim48 sim_late"
  by (simp add: no_underflow_def now_read_def sleep_until_late) (simp add: run_simps)

lemma sleep_until_block7:
  "sleep_until sim48 sim_block7 =
    (True, sim_block7\<lparr>world := (world sim_block7)\<lparr>sim_now := 16384\<rparr>, sync_frames := 8192\<rparr>)"
  by (simp add: run_simps)

lemma next_wakeup_block7: "next_wakeup sim48 sim_block7 = 8192"
  by (simp add: run_simps)

lemma iteration_1: "iteration sim48 1024 sim_loop = Returns True (sim_loop\<lparr>run := sim_ready1\<rparr>)"
  by (simp add: run_simps)

lemma iteration_2: "iteration sim48 1024 (sim_loop\<lparr>run := sim_ready1\<rparr>)
    = Returns True \<lparr>run = sim_ready2, in_frames = 3072, out_frames = 3072, finished = 2\<rparr>"
  by (simp add: run_simps)

lemma before_sleep_1: "before_sleep sim48 1024 sim_loop = sim_ready"
  by (simp add: before_sleep_def) (simp add: run_simps)

lemma finished_sim_loop: "finished sim_loop = 0" "finished (sim_loop\<lparr>run := sim_ready1\<rparr>) = 0"
  by (simp_all add: sim_loop_def)

lemma loop_run:
  "loop 2 sim48 1024 1 sim_loop
     = Returns True \<lparr>run = sim_ready2, in_frames = 3072, out_frames = 3072, finished = 2\<rparr>"
proof -
  have "loop (Suc (Suc 0)) sim48 1024 1 sim_loop
     = Returns True \<lparr>run = sim_ready2, in_frames = 3072, out_frames = 3072, finished = 2\<rparr>"
    by (simp add: iteration_1 iteration_2 finished_sim_loop)
  then show ?thesis by (simp add: numeral_2_eq_2)
qed

section \<open>The simulated delay and the sleep deadline\<close>

lemma smod_nonneg: "0 \<le> k \<Longrightarrow> 0 < l \<Longrightarrow> (k::int) smod l = k mod l"
  by (simp add: signed_modulo_int_def sgn_if)

lemma word64_eq_small:
  assumes "- 9223372036854775808 \<le> k" "k < 9223372036854775808"
    and "- 9223372036854775808 \<le> j" "j < 9223372036854775808"
  shows "(word_of_int k :: int64) = word_of_int j \<longleftrightarrow> k = j"
proof
  assume "(word_of_int k :: int64) = word_of_int j"
  then have "sint (word_of_int k :: int64) = sint (word_of_int j :: int64)"
    by (rule arg_cong)
  then show "k = j"
    by (simp only: sint_wi64 [OF assms(1,2)] sint_wi64 [OF assms(3,4)])
next
  assume "k = j"
  then show "(word_of_int k :: int64) = word_of_int j" by (rule arg_cong)
qed

lemma sim_delay_blocks:
  assumes "0 \<le> sint sf"
  shows "sim_delay sf = (if (sint sf div 1024) mod 8 = 7 then 8 * 1024 else 0)"
proof -
  let ?q = "sint sf div 1024"
  have q: "sint (sdiv64 sf 1024) = ?q"
    using assms by (simp add: sint_sdiv64 trunc_quot_def)
  have q0: "0 \<le> ?q" using assms by (simp add: pos_imp_zdiv_nonneg_iff)
  have m: "smod64 (sdiv64 sf 1024) 8 = word_of_int (?q mod 8)"
    using q0 by (simp add: smod64_def q smod_nonneg)
  have r: "0 \<le> ?q mod 8" "?q mod 8 < 8" by simp_all
  have "(word_of_int (?q mod 8) :: int64) = word_of_int 7 \<longleftrightarrow> ?q mod 8 = 7"
    by (rule word64_eq_small) (use r in linarith)+
  then show ?thesis by (simp add: sim_delay_def m)
qed

text \<open>
  C7. Let \<open>sync_frames\<close> be a frame count from the origin (not negative, as it is in every
  run: it starts at 0 and does not decrease). When \<open>wakeup > sync_frames\<close>, the deadline
  given to the clock is \<open>wakeup\<close> plus \<open>8 * 1024\<close> if \<open>\<lfloor>sync_frames / 1024\<rfloor> mod 8 = 7\<close> and
  plus 0 otherwise; when the clock returns true, \<open>sync_frames\<close> becomes \<open>wakeup\<close>, without
  the delay. When \<open>wakeup \<le> sync_frames\<close> nothing is done.
\<close>

theorem sleep_delay:
  assumes "0 \<le> sint (sync_frames t)"
  shows "(sint (sync_frames t) < sint (next_wakeup d t) \<longrightarrow>
           sleep_until d t =
             (let delay = (if (sint (sync_frames t) div 1024) mod 8 = 7 then 8 * 1024 else 0);
                  (ok, w1) = clock_sleep (clk d) (next_wakeup d t + delay) (world t)
              in if ok then (True, t\<lparr>world := w1, sync_frames := next_wakeup d t\<rparr>)
                 else (False, t\<lparr>world := w1\<rparr>)))
       \<and> (\<not> sint (sync_frames t) < sint (next_wakeup d t) \<longrightarrow> sleep_until d t = (True, t))"
  using sim_delay_blocks [OF assms]
  by (simp add: sleep_until_def Let_def split: prod.splits)

theorem sleep_delay_witness:
  "0 \<le> sint (sync_frames sim_block7) \<and>
   sint (sync_frames sim_block7) < sint (next_wakeup sim48 sim_block7) \<and>
   (sint (sync_frames sim_block7) div 1024) mod 8 = 7 \<and>
   clock_sleep (clk sim48) (next_wakeup sim48 sim_block7 + 8 * 1024) (world sim_block7)
     = (True, (world sim_block7)\<lparr>sim_now := 16384\<rparr>) \<and>
   sleep_until sim48 sim_block7 =
     (True, sim_block7\<lparr>world := (world sim_block7)\<lparr>sim_now := 16384\<rparr>, sync_frames := 8192\<rparr>)"
  using sleep_delay [of sim_block7 sim48] sleep_until_block7 next_wakeup_block7
  by (simp add: sim_block7_def sim48_def sim_devices_def sim_clock_def max64_def TestRun_init_def)

text \<open>
  The frame time has to be a count from the origin: for a negative one, which no run
  reaches, the division of the source truncates towards zero and the test is false where
  the floor would make it true.
\<close>

lemma sim_delay_negative: "sim_delay (- 1) = 0 \<and> ((- 1 :: int) div 1024) mod 8 = 7"
  by (simp add: sim_delay_def sdiv64_def smod64_def signed_divide_int_def signed_modulo_int_def)

section \<open>The gap\<close>

lemma sint_max64: "sint (max64 a b) = max (sint a) (sint b)"
  by (simp add: max64_def max_def)

lemma gap_word:
  "sint (max64 (max64 0 (sync_frames t - ch_period_end (inp d) (world t)))
               (sync_frames t - ch_period_end (outp d) (world t))) = gap_value d t"
  by (simp add: sint_max64 gap_value_def max.assoc)

lemma gap_word_eq:
  "max64 (max64 0 (sync_frames t - ch_period_end (inp d) (world t)))
         (sync_frames t - ch_period_end (outp d) (world t)) = word_of_int (gap_value d t)"
proof (rule signed_word_eqI)
  have "0 \<le> gap_value d t" by (simp add: gap_value_def)
  moreover have "gap_value d t < 9223372036854775808"
    using sint64_bounds [of "sync_frames t - ch_period_end (inp d) (world t)"]
      sint64_bounds [of "sync_frames t - ch_period_end (outp d) (world t)"]
    by (simp add: gap_value_def)
  ultimately have "sint (word_of_int (gap_value d t) :: int64) = gap_value d t"
    by (intro sint_wi64) linarith+
  then show "sint (max64 (max64 0 (sync_frames t - ch_period_end (inp d) (world t)))
         (sync_frames t - ch_period_end (outp d) (world t))) = sint (word_of_int (gap_value d t) :: int64)"
    by (simp only: gap_word)
qed

lemma gap_check_cases:
  "gap_check d t =
    (if 1024 < gap_value d t
     then (let g = word_of_int (gap_value d t);
               w1 = ch_reset_buffers (inp d) (ch_end_frames (inp d) (world t) + g) (world t);
               w2 = ch_reset_buffers (outp d) (ch_end_frames (outp d) w1 + g) w1
           in t\<lparr>world := w2, gap := g\<rparr>)
     else t\<lparr>gap := 0\<rparr>)"
proof -
  let ?G = "max64 (max64 0 (sync_frames t - ch_period_end (inp d) (world t)))
                  (sync_frames t - ch_period_end (outp d) (world t))"
  have e: "?G = word_of_int (gap_value d t)" by (rule gap_word_eq)
  have "sint ?G = gap_value d t" by (rule gap_word)
  then have c: "sint (word_of_int (gap_value d t) :: int64) = gap_value d t"
    by (simp only: e)
  show ?thesis
    unfolding gap_check_def Let_def e by (simp add: c)
qed

lemma sleep_true:
  "sleep d t = Returns True t' \<Longrightarrow>
   \<exists>t2. fst (sleep_until d t) \<and> catch_up d (snd (sleep_until d t)) = Returns True t2 \<and> t' = gap_check d t2"
  by (auto simp add: sleep_def Let_def split: prod.splits outcome.splits if_splits bool.splits)

lemma iteration_true:
  "iteration d period l = Returns True l' \<Longrightarrow>
   \<exists>t2. sleep d (before_sleep d period l) = Returns True t2 \<and>
        l' = gap_shift ((out_completed d period (in_completed d period (l\<lparr>run := snd (process d (run l))\<rparr>)))
                          \<lparr>run := t2\<rparr>)"
  by (auto simp add: iteration_def before_sleep_def Let_def split: prod.splits outcome.splits if_splits)

lemma before_sleep_completed: "before_sleep d period l = run (completed_pass d period l)"
  by (simp add: before_sleep_def completed_pass_def)

lemma sleep_eq:
  "sleep d t =
    (if \<not> fst (sleep_until d t) then Returns False (snd (sleep_until d t))
     else (case catch_up d (snd (sleep_until d t)) of
             Returns ok t2 \<Rightarrow> if ok then Returns True (gap_check d t2) else Returns False t2
           | Trap \<Rightarrow> Trap
           | Timeout \<Rightarrow> Timeout))"
  by (simp add: sleep_def Let_def split: prod.splits outcome.splits bool.splits)

lemma iteration_eq:
  "iteration d period l =
    (if \<not> fst (process d (run l)) then Returns False (l\<lparr>run := snd (process d (run l))\<rparr>)
     else (case sleep d (before_sleep d period l) of
             Returns ok t3 \<Rightarrow>
               if ok then Returns True (gap_shift ((completed_pass d period l)\<lparr>run := t3\<rparr>))
               else Returns False ((completed_pass d period l)\<lparr>run := t3\<rparr>)
           | Trap \<Rightarrow> Trap
           | Timeout \<Rightarrow> Timeout))"
  by (simp add: iteration_def before_sleep_def completed_pass_def Let_def
      split: prod.splits outcome.splits)

lemma gap_check_gap:
  "sint (gap (gap_check d t2)) = (if 1024 < gap_value d t2 then gap_value d t2 else 0)"
proof -
  have "sint (max64 (max64 0 (sync_frames t2 - ch_period_end (inp d) (world t2)))
                    (sync_frames t2 - ch_period_end (outp d) (world t2))) = gap_value d t2"
    by (rule gap_word)
  then have "sint (word_of_int (gap_value d t2) :: int64) = gap_value d t2"
    by (simp only: gap_word_eq)
  then show ?thesis by (simp add: gap_check_cases Let_def)
qed

lemma gap_shift_after_check:
  "gap_shift (l1\<lparr>run := gap_check d t2\<rparr>) =
     l1\<lparr>in_frames := in_frames l1 + gap (gap_check d t2),
         out_frames := out_frames l1 + gap (gap_check d t2),
         run := (gap_check d t2)\<lparr>gap := 0\<rparr>\<rparr>"
proof (cases "1024 < gap_value d t2")
  case True
  then have "0 < sint (gap (gap_check d t2))" by (simp add: gap_check_gap)
  then show ?thesis by (simp add: gap_shift_def)
next
  case False
  then have g: "gap (gap_check d t2) = 0" by (simp add: gap_check_cases)
  then have "(gap_check d t2)\<lparr>gap := 0\<rparr> = gap_check d t2"
    by (metis TestRun.surjective TestRun.update_convs(3))
  then show ?thesis using g by (simp add: gap_shift_def)
qed

lemma iteration_gap:
  assumes "iteration d period l = Returns True l'"
  shows "\<exists>t2. catch_up d (snd (sleep_until d (before_sleep d period l))) = Returns True t2 \<and>
          l' = (completed_pass d period l)
                 \<lparr>in_frames := in_frames (completed_pass d period l) + gap (gap_check d t2),
                  out_frames := out_frames (completed_pass d period l) + gap (gap_check d t2),
                  run := (gap_check d t2)\<lparr>gap := 0\<rparr>\<rparr>"
proof -
  obtain t3 where s: "sleep d (before_sleep d period l) = Returns True t3"
    and l': "l' = gap_shift ((completed_pass d period l)\<lparr>run := t3\<rparr>)"
    using assms by (auto simp add: iteration_eq split: if_splits outcome.splits)
  obtain t2 where c: "catch_up d (snd (sleep_until d (before_sleep d period l))) = Returns True t2"
    and t3: "t3 = gap_check d t2"
    using sleep_true [OF s] by blast
  show ?thesis
    using c l' t3 gap_shift_after_check [where ?l1.0 = "completed_pass d period l" and d = d and ?t2.0 = t2] by auto
qed

text \<open>
  C6. \<open>sleep\<close> returns true exactly when the waiting and the catch-up succeed, and its
  result is then \<open>gap_check\<close> of the object after the catch-up. There the gap is the
  maximum of 0, \<open>sync_frames - read.period_end()\<close> and \<open>sync_frames - write.period_end()\<close>;
  if it exceeds 1024, \<open>reset_buffers(end_frames() + gap)\<close> is called on the read and then
  on the write channel and the gap is kept, otherwise no channel is touched and the gap
  is 0. A pass of the loop in which \<open>process\<close> and \<open>sleep\<close> succeed returns true with
  \<open>gap_shift\<close> applied to the state after the completions and \<open>sleep\<close>: \<open>in_frames\<close> and
  \<open>out_frames\<close> are the values after the completions plus the gap that \<open>sleep\<close> left
  (more than 1024, or 0), the gap is 0 afterwards, and nothing else is changed.
\<close>

theorem sleep_gap:
  "sleep d t =
     (if \<not> fst (sleep_until d t) then Returns False (snd (sleep_until d t))
      else (case catch_up d (snd (sleep_until d t)) of
              Returns ok t2 \<Rightarrow> if ok then Returns True (gap_check d t2) else Returns False t2
            | Trap \<Rightarrow> Trap
            | Timeout \<Rightarrow> Timeout)) \<and>
   (sleep d t = Returns True t' \<longrightarrow>
      (\<exists>t2. catch_up d (snd (sleep_until d t)) = Returns True t2 \<and> t' = gap_check d t2)) \<and>
   gap_check d t2 =
     (if 1024 < gap_value d t2
      then (let g = word_of_int (gap_value d t2);
                w1 = ch_reset_buffers (inp d) (ch_end_frames (inp d) (world t2) + g) (world t2);
                w2 = ch_reset_buffers (outp d) (ch_end_frames (outp d) w1 + g) w1
            in t2\<lparr>world := w2, gap := g\<rparr>)
      else t2\<lparr>gap := 0\<rparr>) \<and>
   sint (gap (gap_check d t2)) = (if 1024 < gap_value d t2 then gap_value d t2 else 0) \<and>
   iteration d period l =
     (if \<not> fst (process d (run l)) then Returns False (l\<lparr>run := snd (process d (run l))\<rparr>)
      else (case sleep d (run (completed_pass d period l)) of
              Returns ok t3 \<Rightarrow>
                if ok then Returns True (gap_shift ((completed_pass d period l)\<lparr>run := t3\<rparr>))
                else Returns False ((completed_pass d period l)\<lparr>run := t3\<rparr>)
            | Trap \<Rightarrow> Trap
            | Timeout \<Rightarrow> Timeout)) \<and>
   (iteration d period l = Returns True l' \<longrightarrow>
      (\<exists>t3. catch_up d (snd (sleep_until d (run (completed_pass d period l)))) = Returns True t3 \<and>
         l' = (completed_pass d period l)
                \<lparr>in_frames := in_frames (completed_pass d period l) + gap (gap_check d t3),
                 out_frames := out_frames (completed_pass d period l) + gap (gap_check d t3),
                 run := (gap_check d t3)\<lparr>gap := 0\<rparr>\<rparr>)) \<and>
   gap_shift l =
     (if 0 < sint (gap (run l))
      then l\<lparr>in_frames := in_frames l + gap (run l),
             out_frames := out_frames l + gap (run l),
             run := (run l)\<lparr>gap := 0\<rparr>\<rparr>
      else l)"
proof (intro conjI impI)
  show "sleep d t =
     (if \<not> fst (sleep_until d t) then Returns False (snd (sleep_until d t))
      else (case catch_up d (snd (sleep_until d t)) of
              Returns ok t2 \<Rightarrow> if ok then Returns True (gap_check d t2) else Returns False t2
            | Trap \<Rightarrow> Trap
            | Timeout \<Rightarrow> Timeout))"
    by (rule sleep_eq)
next
  assume "sleep d t = Returns True t'"
  then show "\<exists>t2. catch_up d (snd (sleep_until d t)) = Returns True t2 \<and> t' = gap_check d t2"
    using sleep_true by blast
next
  show "gap_check d t2 =
     (if 1024 < gap_value d t2
      then (let g = word_of_int (gap_value d t2);
                w1 = ch_reset_buffers (inp d) (ch_end_frames (inp d) (world t2) + g) (world t2);
                w2 = ch_reset_buffers (outp d) (ch_end_frames (outp d) w1 + g) w1
            in t2\<lparr>world := w2, gap := g\<rparr>)
      else t2\<lparr>gap := 0\<rparr>)"
    by (rule gap_check_cases)
next
  show "sint (gap (gap_check d t2)) = (if 1024 < gap_value d t2 then gap_value d t2 else 0)"
    by (rule gap_check_gap)
next
  show "iteration d period l =
     (if \<not> fst (process d (run l)) then Returns False (l\<lparr>run := snd (process d (run l))\<rparr>)
      else (case sleep d (run (completed_pass d period l)) of
              Returns ok t3 \<Rightarrow>
                if ok then Returns True (gap_shift ((completed_pass d period l)\<lparr>run := t3\<rparr>))
                else Returns False ((completed_pass d period l)\<lparr>run := t3\<rparr>)
            | Trap \<Rightarrow> Trap
            | Timeout \<Rightarrow> Timeout))"
    using iteration_eq [of d period l] by (simp only: before_sleep_completed)
next
  assume "iteration d period l = Returns True l'"
  then show "\<exists>t3. catch_up d (snd (sleep_until d (run (completed_pass d period l)))) = Returns True t3 \<and>
         l' = (completed_pass d period l)
                \<lparr>in_frames := in_frames (completed_pass d period l) + gap (gap_check d t3),
                 out_frames := out_frames (completed_pass d period l) + gap (gap_check d t3),
                 run := (gap_check d t3)\<lparr>gap := 0\<rparr>\<rparr>"
    using iteration_gap [of d period l l'] by (simp only: before_sleep_completed)
next
  show "gap_shift l =
     (if 0 < sint (gap (run l))
      then l\<lparr>in_frames := in_frames l + gap (run l),
             out_frames := out_frames l + gap (run l),
             run := (run l)\<lparr>gap := 0\<rparr>\<rparr>
      else l)"
    by (simp add: gap_shift_def)
qed

lemma catch_up_late:
  "catch_up sim48 (sim_late\<lparr>sync_frames := 1024\<rparr>) = Returns True (sim_late\<lparr>sync_frames := 20000\<rparr>)"
  by (simp add: run_simps)

lemma gap_value_late: "gap_value sim48 (sim_late\<lparr>sync_frames := 20000\<rparr>) = 17952"
  by (simp add: gap_value_def) (simp add: run_simps)

lemma iteration_late:
  "iteration sim48 1024 sim_loop_late
     = Returns True \<lparr>run = sim_late1\<lparr>gap := 0\<rparr>, in_frames = 20000, out_frames = 20000,
                     finished = 0\<rparr>"
  by (simp add: run_simps sim_loop_late_def)

lemma completed_pass_late: "completed_pass sim48 1024 sim_loop_late = sim_loop_late"
  by (simp add: completed_pass_def) (simp add: run_simps sim_loop_late_def)

theorem sleep_gap_witness:
  "sleep sim48 sim_late = Returns True sim_late1 \<and>
   catch_up sim48 (snd (sleep_until sim48 sim_late)) = Returns True (sim_late\<lparr>sync_frames := 20000\<rparr>) \<and>
   1024 < gap_value sim48 (sim_late\<lparr>sync_frames := 20000\<rparr>) \<and>
   sim_late1 = gap_check sim48 (sim_late\<lparr>sync_frames := 20000\<rparr>) \<and>
   gap sim_late1 = 17952 \<and>
   fst (process sim48 (run sim_loop_late)) \<and>
   iteration sim48 1024 sim_loop_late
     = Returns True \<lparr>run = sim_late1\<lparr>gap := 0\<rparr>, in_frames = 20000, out_frames = 20000,
                     finished = 0\<rparr> \<and>
   \<lparr>run = sim_late1\<lparr>gap := 0\<rparr>, in_frames = 20000, out_frames = 20000, finished = 0\<rparr>
     = sim_loop_late\<lparr>in_frames := in_frames sim_loop_late + gap sim_late1,
                     out_frames := out_frames sim_loop_late + gap sim_late1,
                     run := sim_late1\<lparr>gap := 0\<rparr>\<rparr> \<and>
   in_frames sim_loop_late = 2048 \<and> out_frames sim_loop_late = 2048"
proof -
  note g = sleep_gap [where d = sim48 and t = sim_late and t' = sim_late1
      and ?t2.0 = "sim_late\<lparr>sync_frames := 20000\<rparr>" and period = 1024 and l = sim_loop_late
      and l' = "\<lparr>run = sim_late1\<lparr>gap := 0\<rparr>, in_frames = 20000, out_frames = 20000,
                 finished = 0\<rparr>"]
  have a: "sleep sim48 sim_late = Returns True sim_late1" by (rule sleep_late)
  have b: "catch_up sim48 (snd (sleep_until sim48 sim_late))
      = Returns True (sim_late\<lparr>sync_frames := 20000\<rparr>)"
    by (simp add: sleep_until_late catch_up_late)
  obtain t2 where "catch_up sim48 (snd (sleep_until sim48 sim_late)) = Returns True t2"
    and "sim_late1 = gap_check sim48 t2"
    using g [THEN conjunct2, THEN conjunct1] a by blast
  then have c: "sim_late1 = gap_check sim48 (sim_late\<lparr>sync_frames := 20000\<rparr>)"
    using b by simp
  have d: "1024 < gap_value sim48 (sim_late\<lparr>sync_frames := 20000\<rparr>)"
    by (simp add: gap_value_late)
  have e: "gap sim_late1 = 17952" by (simp add: sim_late1_def)
  have p: "fst (process sim48 (run sim_loop_late))"
    by (simp add: run_simps sim_loop_late_def)
  have i: "iteration sim48 1024 sim_loop_late
     = Returns True \<lparr>run = sim_late1\<lparr>gap := 0\<rparr>, in_frames = 20000, out_frames = 20000,
                     finished = 0\<rparr>"
    by (rule iteration_late)
  have r: "run (completed_pass sim48 1024 sim_loop_late) = sim_late"
    by (simp add: completed_pass_late) (simp add: sim_loop_late_def)
  obtain t3 where t3: "catch_up sim48 (snd (sleep_until sim48 (run (completed_pass sim48 1024 sim_loop_late))))
        = Returns True t3"
    and l': "\<lparr>run = sim_late1\<lparr>gap := 0\<rparr>, in_frames = 20000, out_frames = 20000, finished = 0\<rparr>
      = (completed_pass sim48 1024 sim_loop_late)
          \<lparr>in_frames := in_frames (completed_pass sim48 1024 sim_loop_late) + gap (gap_check sim48 t3),
           out_frames := out_frames (completed_pass sim48 1024 sim_loop_late) + gap (gap_check sim48 t3),
           run := (gap_check sim48 t3)\<lparr>gap := 0\<rparr>\<rparr>"
    using g [THEN conjunct2, THEN conjunct2, THEN conjunct2, THEN conjunct2, THEN conjunct2,
        THEN conjunct1] i by blast
  have "t3 = sim_late\<lparr>sync_frames := 20000\<rparr>"
    using t3 b by (simp add: r)
  then have "gap_check sim48 t3 = sim_late1" using c by simp
  then have f: "\<lparr>run = sim_late1\<lparr>gap := 0\<rparr>, in_frames = 20000, out_frames = 20000, finished = 0\<rparr>
     = sim_loop_late\<lparr>in_frames := in_frames sim_loop_late + gap sim_late1,
                     out_frames := out_frames sim_loop_late + gap sim_late1,
                     run := sim_late1\<lparr>gap := 0\<rparr>\<rparr>"
    using l' by (simp only: completed_pass_late)
  have h: "in_frames sim_loop_late = 2048" "out_frames sim_loop_late = 2048"
    by (simp_all add: sim_loop_late_def)
  show ?thesis using a b c d e p i f h by (intro conjI)
qed

section \<open>The frame time never decreases\<close>

lemma sleep_until_sync:
  "sint (sync_frames t) \<le> sint (sync_frames (snd (sleep_until d t)))"
  by (simp add: sleep_until_def Let_def split: prod.splits)

text \<open>
  A positive machine difference whose exact value is not below the least
  \<^verbatim>\<open>std::int64_t\<close> is the exact difference: had it wrapped from above, it would be
  negative.
\<close>

lemma sint_diff_late:
  assumes "0 < sint (a - b :: int64)" "- 9223372036854775808 \<le> sint a - sint b"
  shows "sint (a - b) = sint a - sint b"
proof (rule ccontr)
  assume n: "sint (a - b) \<noteq> sint a - sint b"
  have "\<not> sint a - sint b < 9223372036854775808"
    using n assms(2) sint_sub64 [of a b] by linarith
  then have "2 ^ 63 \<le> sint a - sint b" by simp
  then have "signed_take_bit 63 (sint a - sint b) \<le> sint a - sint b - 2 ^ Suc 63"
    by (rule signed_take_bit_int_less_eq)
  then have "sint (a - b) \<le> sint a - sint b - 18446744073709551616"
    by (simp add: sint_word_diff)
  then show False
    using assms(1) sint64_bounds [of a] sint64_bounds [of b] by linarith
qed

lemma sint_step: "0 \<le> sint (ucast (s :: uint32) :: int64)"
  by (simp add: sint_ucast32)

lemma sint_rounded:
  assumes "0 < sint step" "sint step < sint diff"
  shows "sint (diff - smod64 diff step) = sint diff - sint diff mod sint step"
proof -
  have m: "sint diff smod sint step = sint diff mod sint step"
    using assms by (intro smod_nonneg) linarith+
  have r: "0 \<le> sint diff mod sint step" "sint diff mod sint step < sint step"
    using assms(1) by simp_all
  have "sint (smod64 diff step) = sint diff mod sint step"
    unfolding smod64_def m
    by (rule sint_wi64) (use r assms sint64_bounds [of diff] in linarith)+
  moreover have "sint (diff - smod64 diff step) = sint diff - sint (smod64 diff step)"
    by (rule sint_sub64) (use calculation r assms sint64_bounds [of diff] in linarith)+
  ultimately show ?thesis by simp
qed

lemma catch_up_sync:
  assumes "catch_up d t = Returns ok t'"
    and "- 9223372036854775808 \<le> sint (fst (snd (clock_now (clk d) (world t)))) - sint (sync_frames t)"
  shows "sint (sync_frames t) \<le> sint (sync_frames t')"
proof -
  obtain b now w1 where c: "clock_now (clk d) (world t) = (b, now, w1)"
    by (cases "clock_now (clk d) (world t)") auto
  let ?step = "ucast (ch_stepping (inp d)) :: int64"
  let ?diff = "now - sync_frames t"
  show ?thesis
  proof (cases "b \<and> sint ?step < sint ?diff")
    case False
    then show ?thesis
      using assms(1) c by (auto simp add: catch_up_def Let_def split: if_splits)
  next
    case True
    then have late: "sint ?step < sint ?diff" and b by simp_all
    have nz: "?step \<noteq> 0"
      using assms(1) c True by (auto simp add: catch_up_def Let_def split: if_splits)
    have "sint ?step \<noteq> 0" using nz by (simp add: signed_eq_0_iff)
    then have pos: "0 < sint ?step" using sint_step [of "ch_stepping (inp d)"] by linarith
    have t': "sync_frames t' = sync_frames t + (?diff - smod64 ?diff ?step)"
      using assms(1) c True nz by (auto simp add: catch_up_def Let_def split: if_splits)
    have d: "sint ?diff = sint now - sint (sync_frames t)"
      using pos late assms(2) c by (intro sint_diff_late) simp_all
    have r: "sint (?diff - smod64 ?diff ?step) = sint ?diff - sint ?diff mod sint ?step"
      using pos late by (rule sint_rounded)
    have m: "0 \<le> sint ?diff mod sint ?step" "sint ?diff mod sint ?step \<le> sint ?diff"
      using pos late by (simp_all add: zmod_le_nonneg_dividend)
    have "sint (sync_frames t + (?diff - smod64 ?diff ?step))
        = sint (sync_frames t) + sint (?diff - smod64 ?diff ?step)"
      by (rule sint_add64)
        (use r m d sint64_bounds [of now] sint64_bounds [of "sync_frames t"] in linarith)+
    then show ?thesis using t' r m by simp
  qed
qed

lemma gap_check_sync: "sync_frames (gap_check d t) = sync_frames t"
  by (simp add: gap_check_def Let_def)

lemma sleep_sync:
  assumes "sleep d t = Returns ok t'" "no_underflow d t"
  shows "sint (sync_frames t) \<le> sint (sync_frames t')"
proof (cases "fst (sleep_until d t)")
  case False
  then have "t' = snd (sleep_until d t)"
    using assms(1) by (simp add: sleep_def Let_def split: prod.splits)
  then show ?thesis by (simp add: sleep_until_sync)
next
  case True
  let ?t1 = "snd (sleep_until d t)"
  obtain ok2 t2 where c: "catch_up d ?t1 = Returns ok2 t2"
    and t': "sync_frames t' = sync_frames t2"
    using assms(1) True
    by (auto simp add: sleep_def Let_def gap_check_sync split: prod.splits outcome.splits bool.splits)
  have "sint (sync_frames ?t1) \<le> sint (sync_frames t2)"
    using c assms(2) by (intro catch_up_sync) (simp_all add: no_underflow_def now_read_def)
  then show ?thesis
    using sleep_until_sync [of t d] t' by simp
qed

lemma process_sync: "sync_frames (snd (process d t)) = sync_frames t"
  by (simp add: process_def Let_def split: prod.splits)

lemma in_completed_sync: "sync_frames (run (in_completed d period l)) = sync_frames (run l)"
  by (simp add: in_completed_def Let_def)

lemma out_completed_sync: "sync_frames (run (out_completed d period l)) = sync_frames (run l)"
  by (simp add: out_completed_def Let_def)

lemma gap_shift_sync: "sync_frames (run (gap_shift l)) = sync_frames (run l)"
  by (simp add: gap_shift_def)

lemma before_sleep_sync: "sync_frames (before_sleep d period l) = sync_frames (run l)"
  by (simp add: before_sleep_def out_completed_sync in_completed_sync process_sync)

lemma iteration_cases:
  assumes "iteration d period l = Returns ok l'"
  shows "sync_frames (run l') = sync_frames (run l) \<or>
         (\<exists>ok2 t2. sleep d (before_sleep d period l) = Returns ok2 t2 \<and>
                   sync_frames (run l') = sync_frames t2)"
proof (cases "fst (process d (run l))")
  case False
  then have "l' = l\<lparr>run := snd (process d (run l))\<rparr>"
    using assms by (simp add: iteration_def Let_def split: prod.splits)
  then show ?thesis by (simp add: process_sync)
next
  case True
  then show ?thesis
    using assms
    by (auto simp add: iteration_def before_sleep_def Let_def gap_shift_sync
        split: prod.splits outcome.splits if_splits)
qed

lemma iteration_sync:
  assumes "iteration d period l = Returns ok l'" "no_underflow d (before_sleep d period l)"
  shows "sint (sync_frames (run l)) \<le> sint (sync_frames (run l'))"
  using iteration_cases [OF assms(1)]
proof
  assume "sync_frames (run l') = sync_frames (run l)"
  then show ?thesis by simp
next
  assume "\<exists>ok2 t2. sleep d (before_sleep d period l) = Returns ok2 t2 \<and>
                   sync_frames (run l') = sync_frames t2"
  then obtain ok2 t2 where s: "sleep d (before_sleep d period l) = Returns ok2 t2"
    and e: "sync_frames (run l') = sync_frames t2" by blast
  have "sint (sync_frames (before_sleep d period l)) \<le> sint (sync_frames t2)"
    using s assms(2) by (rule sleep_sync)
  then show ?thesis by (simp add: e before_sleep_sync)
qed

text \<open>
  C8. \<open>sync_frames\<close> starts at 0. In every call of \<open>sleep\<close> that returns, with any
  wakeup times from the channels and any clock value for which the subtraction
  \<open>now - sync_frames\<close> does not fall below the least 64-bit integer, \<open>sync_frames\<close> is
  afterwards at least what it was; the rest of the loop body does not assign it, so the
  same holds for every pass of the loop that returns.
\<close>

theorem sync_frames_monotone:
  "sync_frames (TestRun_init w) = 0 \<and>
   (sleep d t = Returns ok t' \<and> no_underflow d t
      \<longrightarrow> sint (sync_frames t) \<le> sint (sync_frames t')) \<and>
   sync_frames (before_sleep d period l) = sync_frames (run l) \<and>
   (iteration d period l = Returns ok2 l' \<and> no_underflow d (before_sleep d period l)
      \<longrightarrow> sint (sync_frames (run l)) \<le> sint (sync_frames (run l')))"
  using sleep_sync [of d t ok t'] iteration_sync [of d period l ok2 l']
  by (simp add: TestRun_init_def before_sleep_sync)

lemma no_underflow_ready: "no_underflow sim48 sim_ready"
  by (simp add: no_underflow_def now_read_def) (simp add: run_simps)

theorem sync_frames_monotone_witness:
  "sleep sim48 sim_late = Returns True sim_late1 \<and> no_underflow sim48 sim_late \<and>
   sint (sync_frames sim_late) \<le> sint (sync_frames sim_late1) \<and>
   sync_frames sim_late = 0 \<and> sync_frames sim_late1 = 20000 \<and>
   iteration sim48 1024 sim_loop = Returns True (sim_loop\<lparr>run := sim_ready1\<rparr>) \<and>
   no_underflow sim48 (before_sleep sim48 1024 sim_loop) \<and>
   sint (sync_frames (run sim_loop)) \<le> sint (sync_frames (run (sim_loop\<lparr>run := sim_ready1\<rparr>)))"
proof -
  note m = sync_frames_monotone [of sim_late sim48 sim_late True sim_late1 1024 sim_loop True
      "sim_loop\<lparr>run := sim_ready1\<rparr>"]
  have a: "sleep sim48 sim_late = Returns True sim_late1" by (rule sleep_late)
  have b: "no_underflow sim48 sim_late" by (rule no_underflow_late)
  have c: "sint (sync_frames sim_late) \<le> sint (sync_frames sim_late1)"
    using m [THEN conjunct2, THEN conjunct1] a b by blast
  have d: "sync_frames sim_late = 0" "sync_frames sim_late1 = 20000"
    by (simp_all add: sim_late_def sim_late1_def TestRun_init_def)
  have e: "iteration sim48 1024 sim_loop = Returns True (sim_loop\<lparr>run := sim_ready1\<rparr>)"
    by (rule iteration_1)
  have f: "no_underflow sim48 (before_sleep sim48 1024 sim_loop)"
    by (simp add: before_sleep_1 no_underflow_ready)
  have g: "sint (sync_frames (run sim_loop)) \<le> sint (sync_frames (run (sim_loop\<lparr>run := sim_ready1\<rparr>)))"
    using m [THEN conjunct2, THEN conjunct2, THEN conjunct2] e f by blast
  show ?thesis using a b c d e f g by (intro conjI)
qed

text \<open>
  A clock that counts frames from its origin never returns a negative value; then the
  subtraction cannot fall below the least 64-bit integer, and the frame time at the end
  of a run of the loop is at least the one at its beginning.
\<close>

lemma nonneg_now: "0 \<le> sint (now_read d t) \<Longrightarrow> no_underflow d t"
  using sint64_bounds [of "sync_frames (snd (sleep_until d t))"]
  by (simp add: no_underflow_def)

lemma loop_sync:
  assumes "loop fuel d period repetitions l = Returns ok l'"
    and "\<forall>w. 0 \<le> sint (fst (snd (clock_now (clk d) w)))"
  shows "sint (sync_frames (run l)) \<le> sint (sync_frames (run l'))"
  using assms(1)
proof (induction fuel arbitrary: l)
  case 0
  then show ?case by (simp split: if_splits)
next
  case (Suc k)
  show ?case
  proof (cases "unat (finished l) < unat repetitions")
    case False
    then show ?thesis using Suc.prems by simp
  next
    case True
    then obtain ok1 l1 where i: "iteration d period l = Returns ok1 l1"
      and r: "\<not> ok1 \<and> l' = l1 \<or> ok1 \<and> loop k d period repetitions l1 = Returns ok l'"
      using Suc.prems by (auto split: outcome.splits if_splits)
    have "no_underflow d (before_sleep d period l)"
      using assms(2) by (intro nonneg_now) (simp add: now_read_def)
    then have s: "sint (sync_frames (run l)) \<le> sint (sync_frames (run l1))"
      using i by (intro iteration_sync)
    from r show ?thesis
    proof
      assume "\<not> ok1 \<and> l' = l1"
      then show ?thesis using s by simp
    next
      assume "ok1 \<and> loop k d period repetitions l1 = Returns ok l'"
      then show ?thesis using Suc.IH [of l1] s by simp
    qed
  qed
qed

section \<open>The loop and its counter\<close>

lemma unat_bump: "unat (x + of_bool a + of_bool b :: uint32) \<le> unat x + 2"
proof -
  have "unat (x + of_bool a + of_bool b) \<le> unat (x + of_bool a) + unat (of_bool b :: uint32)"
    by (simp add: unat_word_ariths)
  also have "unat (x + of_bool a) \<le> unat x + unat (of_bool a :: uint32)"
    by (simp add: unat_word_ariths)
  finally show ?thesis by (cases a; cases b) simp_all
qed

lemma completed_count:
  "finished (out_completed d period (in_completed d period l)) =
     finished l
     + of_bool (ch_finished (inp d) (world (run l)) (sync_frames (run l)))
     + of_bool (ch_finished (outp d) (world (run (in_completed d period l))) (sync_frames (run l)))"
  by (simp add: out_completed_def in_completed_def Let_def)

lemma iteration_finished_eq:
  assumes "iteration d period l = Returns True l'"
  shows "finished l' = finished (out_completed d period
           (in_completed d period (l\<lparr>run := snd (process d (run l))\<rparr>)))"
  using iteration_true [OF assms] by (auto simp add: gap_shift_def)

lemma iteration_finished:
  assumes "iteration d period l = Returns True l'"
  shows "unat (finished l') \<le> unat (finished l) + 2"
  using unat_bump [of "finished l"]
  by (simp add: iteration_finished_eq [OF assms] completed_count)

lemma loop_exit:
  assumes "loop fuel d period repetitions l = Returns True l'"
    and "unat (finished l) \<le> unat repetitions + 1"
  shows "unat repetitions \<le> unat (finished l') \<and> unat (finished l') \<le> unat repetitions + 1"
  using assms
proof (induction fuel arbitrary: l)
  case 0
  then show ?case by (simp split: if_splits)
next
  case (Suc k)
  show ?case
  proof (cases "unat (finished l) < unat repetitions")
    case False
    then show ?thesis using Suc.prems by simp
  next
    case True
    then obtain l1 where i: "iteration d period l = Returns True l1"
      and r: "loop k d period repetitions l1 = Returns True l'"
      using Suc.prems(1) by (auto split: outcome.splits if_splits)
    have "unat (finished l1) \<le> unat repetitions + 1"
      using iteration_finished [OF i] True by linarith
    then show ?thesis using Suc.IH [OF r] by simp
  qed
qed

lemma loop_done:
  "unat repetitions \<le> unat (finished l) \<Longrightarrow> loop fuel d period repetitions l = Returns True l"
  by (cases fuel) simp_all

text \<open>
  C5, as stated, fails: with \<open>repetitions = 1\<close> on the simulated device, both channels
  complete their first period in the same pass, and the loop is left with
  \<open>finished = 2\<close>, after two completions (one \<^verbatim>\<open>take_buffer\<close> on each channel), not one.
\<close>

theorem loop_overshoot:
  "loop 2 sim48 1024 1 sim_loop
     = Returns True \<lparr>run = sim_ready2, in_frames = 3072, out_frames = 3072, finished = 2\<rparr> \<and>
   taken (sim_inq (world sim_ready2)) + taken (sim_outq (world sim_ready2)) = 2"
  using loop_run by (simp add: sim_ready2_def)

text \<open>
  C5, amended. The loop runs while \<open>finished < repetitions\<close> and is over, whatever the
  fuel, once \<open>finished \<ge> repetitions\<close>. In one pass \<open>finished\<close> grows by one for the read
  channel if it has finished a period and by one for the write channel if it has, so by up
  to two. A loop entered with \<open>finished \<le> repetitions + 1\<close> (it is entered with 0) and
  left normally is left with \<open>finished\<close> equal to \<open>repetitions\<close> or to \<open>repetitions + 1\<close>.
\<close>

theorem loop_completions:
  "(unat repetitions \<le> unat (finished l) \<longrightarrow> loop fuel d period repetitions l = Returns True l) \<and>
   finished (out_completed d period (in_completed d period l)) =
     finished l
     + of_bool (ch_finished (inp d) (world (run l)) (sync_frames (run l)))
     + of_bool (ch_finished (outp d) (world (run (in_completed d period l))) (sync_frames (run l))) \<and>
   (iteration d period l = Returns True l1 \<longrightarrow>
      finished l1 = finished (out_completed d period
           (in_completed d period (l\<lparr>run := snd (process d (run l))\<rparr>)))) \<and>
   (loop fuel d period repetitions l = Returns True l' \<and> unat (finished l) \<le> unat repetitions + 1
      \<longrightarrow> unat repetitions \<le> unat (finished l') \<and> unat (finished l') \<le> unat repetitions + 1)"
  using loop_done [of repetitions l fuel d period] completed_count [of d period l]
    iteration_finished_eq [of d period l l1] loop_exit [of fuel d period repetitions l l']
  by blast

theorem loop_completions_witness:
  "loop 2 sim48 1024 1 sim_loop
     = Returns True \<lparr>run = sim_ready2, in_frames = 3072, out_frames = 3072, finished = 2\<rparr> \<and>
   unat (finished sim_loop) \<le> unat (1 :: uint32) + 1 \<and>
   unat (1 :: uint32) \<le> unat (finished \<lparr>run = sim_ready2, in_frames = 3072, out_frames = 3072, finished = 2\<rparr>) \<and>
   unat (finished \<lparr>run = sim_ready2, in_frames = 3072, out_frames = 3072, finished = 2\<rparr>) \<le> unat (1 :: uint32) + 1"
proof -
  note c = loop_completions [of 1 sim_loop 2 sim48 1024 sim_loop
      "\<lparr>run = sim_ready2, in_frames = 3072, out_frames = 3072, finished = 2\<rparr>"]
  have a: "loop 2 sim48 1024 1 sim_loop
     = Returns True \<lparr>run = sim_ready2, in_frames = 3072, out_frames = 3072, finished = 2\<rparr>"
    by (rule loop_run)
  have b: "unat (finished sim_loop) \<le> unat (1 :: uint32) + 1"
    by (simp add: sim_loop_def)
  have "unat (1 :: uint32) \<le> unat (finished \<lparr>run = sim_ready2, in_frames = 3072, out_frames = 3072, finished = 2\<rparr>) \<and>
   unat (finished \<lparr>run = sim_ready2, in_frames = 3072, out_frames = 3072, finished = 2\<rparr>) \<le> unat (1 :: uint32) + 1"
    using c [THEN conjunct2, THEN conjunct2, THEN conjunct2] a b by blast
  then show ?thesis using a b by (intro conjI) simp_all
qed

section \<open>The stepping of the write channel\<close>

lemma out_stepping_getters:
  "inp (with_out_stepping s d) = inp d"
  "clk (with_out_stepping s d) = clk d"
  "ch_recording (outp (with_out_stepping s d)) = ch_recording (outp d)"
  "ch_playback (outp (with_out_stepping s d)) = ch_playback (outp d)"
  "ch_can_memory_map (outp (with_out_stepping s d)) = ch_can_memory_map (outp d)"
  "ch_sample_rate (outp (with_out_stepping s d)) = ch_sample_rate (outp d)"
  "ch_frame_size (outp (with_out_stepping s d)) = ch_frame_size (outp d)"
  "ch_memory_map (outp (with_out_stepping s d)) = ch_memory_map (outp d)"
  "ch_memory_unmap (outp (with_out_stepping s d)) = ch_memory_unmap (outp d)"
  "ch_set_buffer (outp (with_out_stepping s d)) = ch_set_buffer (outp d)"
  "ch_add_to_sync_group (outp (with_out_stepping s d)) = ch_add_to_sync_group (outp d)"
  "ch_start_sync_group (outp (with_out_stepping s d)) = ch_start_sync_group (outp d)"
  "ch_wakeup_time (outp (with_out_stepping s d)) = ch_wakeup_time (outp d)"
  "ch_process (outp (with_out_stepping s d)) = ch_process (outp d)"
  "ch_finished (outp (with_out_stepping s d)) = ch_finished (outp d)"
  "ch_balance (outp (with_out_stepping s d)) = ch_balance (outp d)"
  "ch_take_buffer (outp (with_out_stepping s d)) = ch_take_buffer (outp d)"
  "ch_period_end (outp (with_out_stepping s d)) = ch_period_end (outp d)"
  "ch_end_frames (outp (with_out_stepping s d)) = ch_end_frames (outp d)"
  "ch_reset_buffers (outp (with_out_stepping s d)) = ch_reset_buffers (outp d)"
  by (simp_all add: with_out_stepping_def)

lemma process_out_stepping: "process (with_out_stepping s d) t = process d t"
  unfolding process_def out_stepping_getters ..

lemma sleep_out_stepping: "sleep (with_out_stepping s d) t = sleep d t"
  unfolding sleep_def sleep_until_def next_wakeup_def catch_up_def gap_check_def
    out_stepping_getters ..

lemma completed_out_stepping:
  "in_completed (with_out_stepping s d) period l = in_completed d period l"
  "out_completed (with_out_stepping s d) period l = out_completed d period l"
  unfolding in_completed_def out_completed_def out_stepping_getters by (rule refl)+

lemma iteration_out_stepping:
  "iteration (with_out_stepping s d) period l = iteration d period l"
  unfolding iteration_def process_out_stepping sleep_out_stepping completed_out_stepping ..

lemma loop_out_stepping:
  "loop fuel (with_out_stepping s d) period repetitions l = loop fuel d period repetitions l"
  by (induction fuel arbitrary: l) (simp_all add: iteration_out_stepping split: outcome.splits)

lemma init_out_stepping:
  "map_failed (inp (with_out_stepping s d)) mm w = map_failed (inp d) mm w"
  "map_failed (outp (with_out_stepping s d)) mm w = map_failed (outp d) mm w"
  "prepare_buffers (with_out_stepping s d) period w = prepare_buffers d period w"
  "start_channels (with_out_stepping s d) w = start_channels d w"
  unfolding map_failed_def prepare_buffers_def start_channels_def out_stepping_getters
  by (rule refl)+

text \<open>
  The stepping of the write channel is never read for its value: \<open>read_write\<close> does the
  same whatever it is, equal to the stepping of the read channel or not.
\<close>

lemma read_write_out_stepping:
  "read_write fuel (with_out_stepping s d) period repetitions mm t
     = read_write fuel d period repetitions mm t"
proof -
  have e: "(ch_stepping (outp (with_out_stepping s d)) \<noteq> ch_stepping (outp (with_out_stepping s d)))
      = (ch_stepping (outp d) \<noteq> ch_stepping (outp d))" by simp
  show ?thesis
    unfolding read_write_def run_mapped_def init_out_stepping loop_out_stepping
      out_stepping_getters e ..
qed

end
